theory Spec2Isabelle
  imports Complex_Main "HOL-Library.Multiset"
begin

section \<open>Numbers\<close>

text \<open>
  The tracker computes on numpy float64 values. They are modelled by the type \<open>fl\<close>:
  a finite value carries a real number, and the three special values of IEEE 754 are
  kept, because the code tests for them (\<open>np.isnan\<close>, \<open>np.ma.masked_invalid\<close>) and
  produces them (numpy divides by zero and overflows with a warning, not an exception).
\<close>

datatype fl = Fin real | PInf | NInf | NaN

text \<open>
  The result of an arithmetic operation whose exact value is \<open>v\<close>. It overflows to an
  infinity from \<open>2 ^ 1024 - 2 ^ 970\<close> on, the point from which float64 rounds to infinity,
  and underflows to zero up to \<open>2 ^ -1075\<close>, half the smallest positive float64. In
  between the exact value is kept: the rounding to 53 bits is left out (there is a
  single zero, too), so a result of the model is the result of the code up to rounding.
\<close>

definition float64 :: "real \<Rightarrow> fl" where
  "float64 v =
     (if 2 ^ 1024 - 2 ^ 970 \<le> v then PInf
      else if v \<le> - (2 ^ 1024 - 2 ^ 970) then NInf
      else if \<bar>v\<bar> \<le> 1 / 2 ^ 1075 then Fin 0
      else Fin v)"

text \<open>
  A real number that float64 holds up to rounding: zero, or a number of the normal range.
\<close>

definition in_range :: "real \<Rightarrow> bool" where
  "in_range v = (v = 0 \<or> (1 / 2 ^ 1022 \<le> \<bar>v\<bar> \<and> \<bar>v\<bar> \<le> 2 ^ 1024 - 2 ^ 971))"

fun isnan :: "fl \<Rightarrow> bool" where
  "isnan NaN = True"
| "isnan _ = False"

fun isinf :: "fl \<Rightarrow> bool" where
  "isinf PInf = True"
| "isinf NInf = True"
| "isinf _ = False"

text \<open>The sign of a value that is not NaN: -1, 0 or 1.\<close>

fun fsign :: "fl \<Rightarrow> real" where
  "fsign (Fin a) = sgn a"
| "fsign PInf = 1"
| "fsign NInf = - 1"
| "fsign NaN = 0"

definition inf_of_sign :: "real \<Rightarrow> fl" where
  "inf_of_sign s = (if 0 < s then PInf else if s < 0 then NInf else NaN)"

fun fneg :: "fl \<Rightarrow> fl" where
  "fneg (Fin a) = Fin (- a)"
| "fneg PInf = NInf"
| "fneg NInf = PInf"
| "fneg NaN = NaN"

fun fadd :: "fl \<Rightarrow> fl \<Rightarrow> fl" where
  "fadd (Fin a) (Fin b) = float64 (a + b)"
| "fadd NaN _ = NaN"
| "fadd _ NaN = NaN"
| "fadd PInf NInf = NaN"
| "fadd NInf PInf = NaN"
| "fadd PInf _ = PInf"
| "fadd _ PInf = PInf"
| "fadd NInf _ = NInf"
| "fadd _ NInf = NInf"

definition fsub :: "fl \<Rightarrow> fl \<Rightarrow> fl" where
  "fsub a b = fadd a (fneg b)"

fun fmul :: "fl \<Rightarrow> fl \<Rightarrow> fl" where
  "fmul (Fin a) (Fin b) = float64 (a * b)"
| "fmul NaN _ = NaN"
| "fmul _ NaN = NaN"
| "fmul a b = inf_of_sign (fsign a * fsign b)"

text \<open>
  Division as numpy does it: a finite value over zero is an infinity of the sign of the
  numerator, zero over zero is NaN, and no exception is raised.
\<close>

fun fdiv :: "fl \<Rightarrow> fl \<Rightarrow> fl" where
  "fdiv (Fin a) (Fin b) = (if b \<noteq> 0 then float64 (a / b) else inf_of_sign a)"
| "fdiv NaN _ = NaN"
| "fdiv _ NaN = NaN"
| "fdiv (Fin a) _ = Fin 0"
| "fdiv PInf (Fin b) = (if 0 \<le> b then PInf else NInf)"
| "fdiv NInf (Fin b) = (if 0 \<le> b then NInf else PInf)"
| "fdiv _ _ = NaN"

fun fsqrt :: "fl \<Rightarrow> fl" where
  "fsqrt (Fin a) = (if 0 \<le> a then Fin (sqrt a) else NaN)"
| "fsqrt PInf = PInf"
| "fsqrt NInf = NaN"
| "fsqrt NaN = NaN"

text \<open>Comparisons: every comparison with NaN is false.\<close>

fun fless :: "fl \<Rightarrow> fl \<Rightarrow> bool" where
  "fless (Fin a) (Fin b) = (a < b)"
| "fless NaN _ = False"
| "fless _ NaN = False"
| "fless _ NInf = False"
| "fless PInf _ = False"
| "fless _ _ = True"

definition fgreater :: "fl \<Rightarrow> fl \<Rightarrow> bool" where
  "fgreater a b = fless b a"

fun fle :: "fl \<Rightarrow> fl \<Rightarrow> bool" where
  "fle (Fin a) (Fin b) = (a \<le> b)"
| "fle NaN _ = False"
| "fle _ NaN = False"
| "fle NInf _ = True"
| "fle _ PInf = True"
| "fle _ _ = False"

text \<open>\<open>np.maximum\<close> and \<open>np.minimum\<close> return NaN when either argument is NaN.\<close>

definition fmaximum :: "fl \<Rightarrow> fl \<Rightarrow> fl" where
  "fmaximum a b = (if isnan a \<or> isnan b then NaN else if fless a b then b else a)"

definition fminimum :: "fl \<Rightarrow> fl \<Rightarrow> fl" where
  "fminimum a b = (if isnan a \<or> isnan b then NaN else if fless b a then b else a)"

section \<open>Geometry kernel\<close>

text \<open>
  A box is \<open>[x1, y1, x2, y2]\<close>; a row of the detection array and of the array of predicted
  boxes has a fifth column (the score, or 0). An observation is \<open>[x, y, s, r]\<close>.
\<close>

type_synonym box = "fl \<times> fl \<times> fl \<times> fl"
type_synonym row = "fl \<times> fl \<times> fl \<times> fl \<times> fl"

fun box_of_row :: "row \<Rightarrow> box" where
  "box_of_row (c0, c1, c2, c3, c4) = (c0, c1, c2, c3)"

text \<open>One entry of \<open>iou_batch\<close>: the value computed for a pair of rows.\<close>

fun iou :: "row \<Rightarrow> row \<Rightarrow> fl" where
  "iou (t0, t1, t2, t3, t4) (g0, g1, g2, g3, g4) =
     (let xx1 = fmaximum t0 g0;
          yy1 = fmaximum t1 g1;
          xx2 = fminimum t2 g2;
          yy2 = fminimum t3 g3;
          w = fmaximum (Fin 0) (fsub xx2 xx1);
          h = fmaximum (Fin 0) (fsub yy2 yy1);
          wh = fmul w h
      in fdiv wh (fsub (fadd (fmul (fsub t2 t0) (fsub t3 t1))
                             (fmul (fsub g2 g0) (fsub g3 g1))) wh))"

definition iou_batch :: "row list \<Rightarrow> row list \<Rightarrow> fl list list" where
  "iou_batch bb_test bb_gt = map (\<lambda>t. map (\<lambda>g. iou t g) bb_gt) bb_test"

fun convert_bbox_to_z :: "box \<Rightarrow> box" where
  "convert_bbox_to_z (b0, b1, b2, b3) =
     (let w = fsub b2 b0;
          h = fsub b3 b1;
          x = fadd b0 (fdiv w (Fin 2));
          y = fadd b1 (fdiv h (Fin 2));
          s = fmul w h;
          r = fdiv w h
      in (x, y, s, r))"

fun convert_x_to_bbox :: "box \<Rightarrow> box" where
  "convert_x_to_bbox (x0, x1, x2, x3) =
     (let w = fsqrt (fmul x2 x3);
          h = fdiv x2 w
      in (fsub x0 (fdiv w (Fin 2)), fsub x1 (fdiv h (Fin 2)),
          fadd x0 (fdiv w (Fin 2)), fadd x1 (fdiv h (Fin 2))))"

section \<open>Python sequences and exceptions\<close>

datatype error = IndexError | ValueError

text \<open>
  An index into a sequence of length \<open>n\<close>: a negative index counts from the end, and an
  index outside the sequence raises IndexError.
\<close>

definition py_index :: "nat \<Rightarrow> int \<Rightarrow> error + nat" where
  "py_index n i =
     (let j = (if i < 0 then int n + i else i)
      in if 0 \<le> j \<and> j < int n then Inr (nat j) else Inl IndexError)"

definition py_nth :: "'a list \<Rightarrow> int \<Rightarrow> error + 'a" where
  "py_nth xs i = (case py_index (length xs) i of Inl e \<Rightarrow> Inl e | Inr j \<Rightarrow> Inr (xs ! j))"

text \<open>\<open>xs.pop(i)\<close>, as the list that is left.\<close>

definition list_pop :: "'a list \<Rightarrow> int \<Rightarrow> error + 'a list" where
  "list_pop xs i =
     (case py_index (length xs) i of
        Inl e \<Rightarrow> Inl e
      | Inr j \<Rightarrow> Inr (take j xs @ drop (Suc j) xs))"

section \<open>The libraries the tracker calls\<close>

text \<open>
  The assignment backends (\<open>lap.lapjv\<close>, \<open>scipy.optimize.linear_sum_assignment\<close>) and the
  Kalman filter (\<open>filterpy.kalman.KalmanFilter\<close>) are not code of the tracker. They are
  parameters of the model: whether \<open>import lap\<close> succeeds, what each backend returns for a
  cost matrix, the matrices of a new filter (after the scalings of
  \<open>KalmanBoxTracker.__init__\<close>), and the filter's \<open>predict\<close> and \<open>update\<close> as functions of
  the state vector \<open>kf.x\<close> and the matrices. A backend returns its arrays or raises an
  exception (\<open>linear_sum_assignment\<close> raises ValueError on a cost matrix with an invalid
  entry), and \<open>linear_assignment\<close> catches ImportError only, so the exception of a
  backend is the exception of the tracker. The calls into the filter are taken to return.
\<close>

type_synonym kfx = "fl \<times> fl \<times> fl \<times> fl \<times> fl \<times> fl \<times> fl"

record 'p library =
  lap_installed :: bool
  lapjv :: "fl list list \<Rightarrow> error + (int list \<times> int list)"
  linear_sum_assignment :: "fl list list \<Rightarrow> error + (int list \<times> int list)"
  KalmanFilter_new :: 'p
  KalmanFilter_predict :: "kfx \<times> 'p \<Rightarrow> kfx \<times> 'p"
  KalmanFilter_update :: "kfx \<times> 'p \<Rightarrow> box \<Rightarrow> kfx \<times> 'p"

text \<open>\<open>[[y[i], i] for i in x if i >= 0]\<close>\<close>

fun lap_pairs :: "int list \<Rightarrow> int list \<Rightarrow> error + (int \<times> int) list" where
  "lap_pairs y [] = Inr []"
| "lap_pairs y (i # rest) =
     (if 0 \<le> i then
        (case py_nth y i of
           Inl e \<Rightarrow> Inl e
         | Inr r \<Rightarrow> (case lap_pairs y rest of Inl e \<Rightarrow> Inl e | Inr ps \<Rightarrow> Inr ((r, i) # ps)))
      else lap_pairs y rest)"

definition linear_assignment :: "'p library \<Rightarrow> fl list list \<Rightarrow> error + (int \<times> int) list" where
  "linear_assignment L cost_matrix =
     (if lap_installed L then
        (case lapjv L cost_matrix of Inl e \<Rightarrow> Inl e | Inr (x, y) \<Rightarrow> lap_pairs y x)
      else
        (case linear_sum_assignment L cost_matrix of
           Inl e \<Rightarrow> Inl e
         | Inr (x, y) \<Rightarrow> Inr (zip x y)))"

section \<open>Association\<close>

text \<open>\<open>(iou_matrix > iou_threshold).astype(np.int32)\<close>\<close>

definition binary_matrix :: "fl list list \<Rightarrow> fl \<Rightarrow> int list list" where
  "binary_matrix iou_matrix iou_threshold =
     map (map (\<lambda>v. if fgreater v iou_threshold then 1 else 0)) iou_matrix"

text \<open>\<open>a.sum(1)\<close> and \<open>a.sum(0)\<close> of a matrix with \<open>m\<close> columns.\<close>

definition row_sums :: "int list list \<Rightarrow> int list" where
  "row_sums a = map sum_list a"

definition col_sums :: "nat \<Rightarrow> int list list \<Rightarrow> int list" where
  "col_sums m a = map (\<lambda>j. sum_list (map (\<lambda>r. r ! j) a)) [0..<m]"

text \<open>\<open>np.stack(np.where(a), axis=1)\<close>: the positions of the non-zero entries, row by row.\<close>

definition np_where :: "nat \<Rightarrow> nat \<Rightarrow> int list list \<Rightarrow> (int \<times> int) list" where
  "np_where n m a =
     map (\<lambda>(i, j). (int i, int j))
       (filter (\<lambda>(i, j). a ! i ! j \<noteq> 0) (List.product [0..<n] [0..<m]))"

text \<open>The indices \<open>0 .. n-1\<close> that are not in a column of \<open>matched_indices\<close>.\<close>

definition unmatched_of :: "nat \<Rightarrow> int list \<Rightarrow> int list" where
  "unmatched_of n col = filter (\<lambda>d. d \<notin> set col) (map int [0..<n])"

text \<open>The loop that filters out the pairs with low IOU.\<close>

fun filter_low_iou ::
  "fl list list \<Rightarrow> fl \<Rightarrow> (int \<times> int) list \<Rightarrow> int list \<Rightarrow> int list \<Rightarrow> (int \<times> int) list
     \<Rightarrow> error + ((int \<times> int) list \<times> int list \<times> int list)" where
  "filter_low_iou iou_matrix thr [] ud ut ms = Inr (ms, ud, ut)"
| "filter_low_iou iou_matrix thr (m # rest) ud ut ms =
     (case py_nth iou_matrix (fst m) of
        Inl e \<Rightarrow> Inl e
      | Inr r \<Rightarrow>
          (case py_nth r (snd m) of
             Inl e \<Rightarrow> Inl e
           | Inr v \<Rightarrow>
               if fless v thr
               then filter_low_iou iou_matrix thr rest (ud @ [fst m]) (ut @ [snd m]) ms
               else filter_low_iou iou_matrix thr rest ud ut (ms @ [m])))"

text \<open>
  The pairs proposed before the filter. A backend that returns no pair at all gives an
  array of shape \<open>(0,)\<close>, and \<open>matched_indices[:,0]\<close> raises IndexError on it.
\<close>

definition matched_indices ::
  "'p library \<Rightarrow> row list \<Rightarrow> row list \<Rightarrow> fl \<Rightarrow> error + (int \<times> int) list" where
  "matched_indices L detections trackers iou_threshold =
     (let iou_matrix = iou_batch detections trackers
      in if 0 < min (length detections) (length trackers) then
           (let a = binary_matrix iou_matrix iou_threshold
            in if Max (set (row_sums a)) = 1 \<and> Max (set (col_sums (length trackers) a)) = 1
               then Inr (np_where (length detections) (length trackers) a)
               else (case linear_assignment L (map (map fneg) iou_matrix) of
                       Inl e \<Rightarrow> Inl e
                     | Inr [] \<Rightarrow> Inl IndexError
                     | Inr (p # ps) \<Rightarrow> Inr (p # ps)))
         else Inr [])"

definition associate_detections_to_trackers ::
  "'p library \<Rightarrow> row list \<Rightarrow> row list \<Rightarrow> fl
     \<Rightarrow> error + ((int \<times> int) list \<times> int list \<times> int list)" where
  "associate_detections_to_trackers L detections trackers iou_threshold =
     (if length trackers = 0 then Inr ([], map int [0..<length detections], [])
      else
        (case matched_indices L detections trackers iou_threshold of
           Inl e \<Rightarrow> Inl e
         | Inr mi \<Rightarrow>
             filter_low_iou (iou_batch detections trackers) iou_threshold mi
               (unmatched_of (length detections) (map fst mi))
               (unmatched_of (length trackers) (map snd mi)) []))"

section \<open>One track\<close>

record 'p KalmanBoxTracker =
  kf :: "kfx \<times> 'p"
  time_since_update :: int
  id' :: int
  history :: "box list"
  hits :: int
  hit_streak :: int
  age :: int

text \<open>
  \<open>KalmanBoxTracker.count\<close> is an attribute of the class: one counter for the process. It
  is threaded through the functions that read or write it. A new track takes the counter
  as its \<open>id\<close> and increments it.
\<close>

definition KalmanBoxTracker_init ::
  "'p library \<Rightarrow> int \<Rightarrow> row \<Rightarrow> 'p KalmanBoxTracker \<times> int" where
  "KalmanBoxTracker_init L cnt bbox =
     (case convert_bbox_to_z (box_of_row bbox) of
        (z0, z1, z2, z3) \<Rightarrow>
          (\<lparr> kf = ((z0, z1, z2, z3, Fin 0, Fin 0, Fin 0), KalmanFilter_new L),
             time_since_update = 0,
             id' = cnt,
             history = [],
             hits = 0,
             hit_streak = 0,
             age = 0 \<rparr>,
           cnt + 1))"

definition update :: "'p library \<Rightarrow> 'p KalmanBoxTracker \<Rightarrow> row \<Rightarrow> 'p KalmanBoxTracker" where
  "update L self bbox =
     self \<lparr> time_since_update := 0,
            history := [],
            hits := hits self + 1,
            hit_streak := hit_streak self + 1,
            kf := KalmanFilter_update L (kf self) (convert_bbox_to_z (box_of_row bbox)) \<rparr>"

fun zero_negative_scale :: "kfx \<Rightarrow> kfx" where
  "zero_negative_scale (x0, x1, x2, x3, x4, x5, x6) =
     (if fle (fadd x6 x2) (Fin 0) then (x0, x1, x2, x3, x4, x5, fmul x6 (Fin 0))
      else (x0, x1, x2, x3, x4, x5, x6))"

fun observed :: "kfx \<Rightarrow> box" where
  "observed (x0, x1, x2, x3, x4, x5, x6) = (x0, x1, x2, x3)"

definition get_state :: "'p KalmanBoxTracker \<Rightarrow> box" where
  "get_state self = convert_x_to_bbox (observed (fst (kf self)))"

text \<open>\<open>predict\<close> returns the predicted box and leaves the track changed.\<close>

definition predict :: "'p library \<Rightarrow> 'p KalmanBoxTracker \<Rightarrow> box \<times> 'p KalmanBoxTracker" where
  "predict L self =
     (let k = KalmanFilter_predict L (zero_negative_scale (fst (kf self)), snd (kf self));
          b = convert_x_to_bbox (observed (fst k))
      in (b,
          self \<lparr> kf := k,
                 age := age self + 1,
                 hit_streak := (if 0 < time_since_update self then 0 else hit_streak self),
                 time_since_update := time_since_update self + 1,
                 history := history self @ [b] \<rparr>))"

section \<open>The tracker\<close>

record 'p Sort =
  max_age :: int
  min_hits :: int
  iou_threshold :: fl
  trackers :: "'p KalmanBoxTracker list"
  frame_count :: int

text \<open>\<open>Sort.__init__\<close> does not touch \<open>KalmanBoxTracker.count\<close>.\<close>

definition Sort_init :: "int \<Rightarrow> int \<Rightarrow> fl \<Rightarrow> 'p Sort" where
  "Sort_init ma mh thr =
     \<lparr> max_age = ma, min_hits = mh, iou_threshold = thr, trackers = [], frame_count = 0 \<rparr>"

fun box_isnan :: "box \<Rightarrow> bool" where
  "box_isnan (p0, p1, p2, p3) = (isnan p0 \<or> isnan p1 \<or> isnan p2 \<or> isnan p3)"

text \<open>A row that \<open>np.ma.masked_invalid\<close> leaves unmasked: no NaN and no infinity in it.\<close>

fun row_valid :: "row \<Rightarrow> bool" where
  "row_valid (c0, c1, c2, c3, c4) =
     (\<not> (isnan c0 \<or> isinf c0) \<and> \<not> (isnan c1 \<or> isinf c1) \<and> \<not> (isnan c2 \<or> isinf c2)
      \<and> \<not> (isnan c3 \<or> isinf c3) \<and> \<not> (isnan c4 \<or> isinf c4))"

fun trk_row :: "box \<Rightarrow> row" where
  "trk_row (p0, p1, p2, p3) = (p0, p1, p2, p3, Fin 0)"

text \<open>
  The loop over the live tracks that predicts each one: the tracks after \<open>predict\<close>, the
  rows of \<open>trks\<close>, and \<open>to_del\<close>, the indices of the tracks whose predicted box has a NaN.
\<close>

fun predict_all ::
  "'p library \<Rightarrow> nat \<Rightarrow> 'p KalmanBoxTracker list
     \<Rightarrow> 'p KalmanBoxTracker list \<times> row list \<times> nat list" where
  "predict_all L t [] = ([], [], [])"
| "predict_all L t (trk # rest) =
     (case predict L trk of
        (pos, trk') \<Rightarrow>
          (case predict_all L (Suc t) rest of
             (trs, trks, to_del) \<Rightarrow>
               (trk' # trs, trk_row pos # trks, if box_isnan pos then t # to_del else to_del)))"

text \<open>\<open>for t in reversed(to_del): self.trackers.pop(t)\<close>, given the reversed list.\<close>

fun pop_all :: "'a list \<Rightarrow> nat list \<Rightarrow> error + 'a list" where
  "pop_all xs [] = Inr xs"
| "pop_all xs (t # ts) =
     (case list_pop xs (int t) of Inl e \<Rightarrow> Inl e | Inr xs' \<Rightarrow> pop_all xs' ts)"

text \<open>\<open>for m in matched: self.trackers[m[1]].update(dets[m[0], :])\<close>\<close>

fun update_matched ::
  "'p library \<Rightarrow> row list \<Rightarrow> (int \<times> int) list \<Rightarrow> 'p KalmanBoxTracker list
     \<Rightarrow> error + 'p KalmanBoxTracker list" where
  "update_matched L dets [] trs = Inr trs"
| "update_matched L dets (m # rest) trs =
     (case py_index (length trs) (snd m) of
        Inl e \<Rightarrow> Inl e
      | Inr t \<Rightarrow>
          (case py_nth dets (fst m) of
             Inl e \<Rightarrow> Inl e
           | Inr det \<Rightarrow> update_matched L dets rest (trs[t := update L (trs ! t) det])))"

text \<open>The loop that creates a track for every unmatched detection.\<close>

fun create_new ::
  "'p library \<Rightarrow> row list \<Rightarrow> int list \<Rightarrow> int \<Rightarrow> 'p KalmanBoxTracker list
     \<Rightarrow> error + (int \<times> 'p KalmanBoxTracker list)" where
  "create_new L dets [] cnt trs = Inr (cnt, trs)"
| "create_new L dets (i # rest) cnt trs =
     (case py_nth dets i of
        Inl e \<Rightarrow> Inl e
      | Inr det \<Rightarrow>
          (case KalmanBoxTracker_init L cnt det of
             (trk, cnt') \<Rightarrow> create_new L dets rest cnt' (trs @ [trk])))"

text \<open>\<open>np.concatenate((d,[trk.id+1]))\<close>\<close>

fun out_row :: "box \<Rightarrow> int \<Rightarrow> row" where
  "out_row (d0, d1, d2, d3) n = (d0, d1, d2, d3, Fin (of_int n))"

definition emitted :: "int \<Rightarrow> int \<Rightarrow> 'p KalmanBoxTracker \<Rightarrow> bool" where
  "emitted mh fc trk =
     (time_since_update trk < 1 \<and> (mh \<le> hit_streak trk \<or> fc \<le> mh))"

text \<open>
  The last loop of \<open>Sort.update\<close>. \<open>reversed(self.trackers)\<close> is an iterator that holds an
  index \<open>k\<close> into the list, yields the element at \<open>k\<close> while \<open>k\<close> is inside the list as it is
  now, and decrements \<open>k\<close>; the loop keeps its own index \<open>i\<close> and pops at it.
\<close>

function emit_and_remove ::
  "int \<Rightarrow> int \<Rightarrow> int \<Rightarrow> int \<Rightarrow> int \<Rightarrow> 'p KalmanBoxTracker list \<Rightarrow> row list
     \<Rightarrow> error + ('p KalmanBoxTracker list \<times> row list)" where
  "emit_and_remove ma mh fc k i trs ret =
     (if 0 \<le> k \<and> k < int (length trs) then
        (let trk = trs ! nat k;
             d = get_state trk;
             ret' = (if emitted mh fc trk then ret @ [out_row d (id' trk + 1)] else ret)
         in if ma < time_since_update trk then
              (case list_pop trs (i - 1) of
                 Inl e \<Rightarrow> Inl e
               | Inr trs' \<Rightarrow> emit_and_remove ma mh fc (k - 1) (i - 1) trs' ret')
            else emit_and_remove ma mh fc (k - 1) (i - 1) trs ret')
      else Inr (trs, ret))"
  by pat_completeness auto
termination
  by (relation "measure (\<lambda>(ma, mh, fc, k, i, trs, ret). nat (k + 1))") auto

text \<open>
  \<open>Sort.update\<close> up to and including the creation of the new tracks: the counter and the
  live tracks as the last loop finds them.
\<close>

definition live_tracks ::
  "'p library \<Rightarrow> int \<Rightarrow> 'p Sort \<Rightarrow> row list \<Rightarrow> error + (int \<times> 'p KalmanBoxTracker list)" where
  "live_tracks L cnt self dets =
     (case predict_all L 0 (trackers self) of
        (trs, trks, to_del) \<Rightarrow>
          (case pop_all trs (rev to_del) of
             Inl e \<Rightarrow> Inl e
           | Inr trs' \<Rightarrow>
               (case associate_detections_to_trackers L dets (filter row_valid trks)
                       (iou_threshold self) of
                  Inl e \<Rightarrow> Inl e
                | Inr (matched, unmatched_dets, unmatched_trks) \<Rightarrow>
                    (case update_matched L dets matched trs' of
                       Inl e \<Rightarrow> Inl e
                     | Inr trs'' \<Rightarrow> create_new L dets unmatched_dets cnt trs''))))"

text \<open>
  \<open>Sort.update\<close>: from the counter, the tracker and the detections of the frame to the new
  counter, the tracker after the frame and the rows returned.
\<close>

definition Sort_update ::
  "'p library \<Rightarrow> int \<Rightarrow> 'p Sort \<Rightarrow> row list \<Rightarrow> error + (int \<times> 'p Sort \<times> row list)" where
  "Sort_update L cnt self dets =
     (case live_tracks L cnt self dets of
        Inl e \<Rightarrow> Inl e
      | Inr (cnt', trs) \<Rightarrow>
          (case emit_and_remove (max_age self) (min_hits self) (frame_count self + 1)
                  (int (length trs) - 1) (int (length trs)) trs [] of
             Inl e \<Rightarrow> Inl e
           | Inr (trs', ret) \<Rightarrow>
               Inr (cnt', self \<lparr> trackers := trs', frame_count := frame_count self + 1 \<rparr>,
                    ret)))"

text \<open>A sequence of frames, one call of \<open>Sort.update\<close> for each.\<close>

fun run :: "'p library \<Rightarrow> int \<Rightarrow> 'p Sort \<Rightarrow> row list list \<Rightarrow> error + (int \<times> 'p Sort)" where
  "run L cnt self [] = Inr (cnt, self)"
| "run L cnt self (dets # frames) =
     (case Sort_update L cnt self dets of
        Inl e \<Rightarrow> Inl e
      | Inr (cnt', self', ret) \<Rightarrow> run L cnt' self' frames)"

section \<open>Notions used to state the properties\<close>

text \<open>\<open>iou_matrix[m[0], m[1]]\<close>\<close>

definition iou_at :: "fl list list \<Rightarrow> int \<times> int \<Rightarrow> error + fl" where
  "iou_at iou_matrix m =
     (case py_nth iou_matrix (fst m) of Inl e \<Rightarrow> Inl e | Inr r \<Rightarrow> py_nth r (snd m))"

text \<open>
  What is expected of an assignment backend on a cost matrix of \<open>n\<close> rows and \<open>m\<close>
  columns: at least one pair, no row and no column twice, and indices inside the matrix.
\<close>

definition valid_pairs :: "nat \<Rightarrow> nat \<Rightarrow> (int \<times> int) list \<Rightarrow> bool" where
  "valid_pairs n m ps =
     (ps \<noteq> [] \<and> distinct (map fst ps) \<and> distinct (map snd ps)
      \<and> list_all (\<lambda>p. 0 \<le> fst p \<and> fst p < int n \<and> 0 \<le> snd p \<and> snd p < int m) ps)"

definition solver_ok :: "'p library \<Rightarrow> bool" where
  "solver_ok L =
     (\<forall>C n m. 0 < n \<and> 0 < m \<and> length C = n \<and> list_all (\<lambda>r. length r = m) C
        \<longrightarrow> (\<exists>ps. linear_assignment L C = Inr ps \<and> valid_pairs n m ps))"

text \<open>
  The same for the cost matrices without NaN and without infinity, on which both
  backends are specified.
\<close>

definition finite_matrix :: "fl list list \<Rightarrow> bool" where
  "finite_matrix C = list_all (list_all (\<lambda>v. \<not> isnan v \<and> \<not> isinf v)) C"

definition solver_ok_finite :: "'p library \<Rightarrow> bool" where
  "solver_ok_finite L =
     (\<forall>C n m. 0 < n \<and> 0 < m \<and> length C = n \<and> list_all (\<lambda>r. length r = m) C
                \<and> finite_matrix C
        \<longrightarrow> (\<exists>ps. linear_assignment L C = Inr ps \<and> valid_pairs n m ps))"

text \<open>
  The values that the two conversions compute for the box \<open>(x1, y1, x2, y2)\<close> in exact
  arithmetic, the corners included, are all held by float64 up to rounding: nothing
  overflows and nothing underflows.
\<close>

definition conversions_in_range :: "real \<Rightarrow> real \<Rightarrow> real \<Rightarrow> real \<Rightarrow> bool" where
  "conversions_in_range x1 y1 x2 y2 =
     (let w = x2 - x1; h = y2 - y1
      in list_all in_range
           [x1, y1, x2, y2, w, h, w / 2, h / 2, x1 + w / 2, y1 + h / 2, w * h, w / h, w * w])"

text \<open>The counters of a track as they should be between two frames.\<close>

definition counters_ok :: "'p KalmanBoxTracker \<Rightarrow> bool" where
  "counters_ok trk =
     (0 \<le> hit_streak trk \<and> hit_streak trk \<le> hits trk \<and> hits trk \<le> age trk
      \<and> 0 \<le> time_since_update trk)"

text \<open>A matrix of zeros and ones.\<close>

definition bits :: "int list list \<Rightarrow> bool" where
  "bits a = list_all (list_all (\<lambda>v. v = 0 \<or> v = 1)) a"

text \<open>A pair that the filter demotes: its IOU is below the threshold.\<close>

definition low :: "fl list list \<Rightarrow> fl \<Rightarrow> int \<times> int \<Rightarrow> bool" where
  "low M thr m = (case iou_at M m of Inl e \<Rightarrow> False | Inr v \<Rightarrow> fless v thr)"

text \<open>The row a track is emitted as.\<close>

definition ret_row :: "'p KalmanBoxTracker \<Rightarrow> row" where
  "ret_row trk = out_row (get_state trk) (id' trk + 1)"

text \<open>
  The tracks that the NaN test keeps and the rows that \<open>masked_invalid\<close> keeps, of the
  predictions of a list of tracks. Lemma \<open>live_tracks_unfold\<close> below shows that these are
  the live set and the array \<open>trks\<close> that \<open>Sort.update\<close> hands to the association.
\<close>

definition kept_tracks :: "'p library \<Rightarrow> 'p KalmanBoxTracker list \<Rightarrow> 'p KalmanBoxTracker list" where
  "kept_tracks L trs = map snd (filter (\<lambda>p. \<not> box_isnan (fst p)) (map (predict L) trs))"

definition kept_rows :: "'p library \<Rightarrow> 'p KalmanBoxTracker list \<Rightarrow> row list" where
  "kept_rows L trs = filter row_valid (map (\<lambda>t. trk_row (fst (predict L t))) trs)"

text \<open>The tracks created for a list of detection indices, from a value of the counter.\<close>

fun newborn :: "'p library \<Rightarrow> row list \<Rightarrow> int \<Rightarrow> int list \<Rightarrow> 'p KalmanBoxTracker list" where
  "newborn L dets cnt [] = []"
| "newborn L dets cnt (i # rest) =
     fst (KalmanBoxTracker_init L cnt (dets ! nat i)) # newborn L dets (cnt + 1) rest"

text \<open>The counters of a track that has been predicted and not yet updated in a frame.\<close>

definition predicted_ok :: "'p KalmanBoxTracker \<Rightarrow> bool" where
  "predicted_ok trk =
     (0 \<le> hit_streak trk \<and> hit_streak trk \<le> hits trk \<and> hits trk < age trk
      \<and> 1 \<le> time_since_update trk)"

text \<open>
  For one input of the association: if the backend is called, it returns valid pairs.
\<close>

definition backend_returns :: "'p library \<Rightarrow> row list \<Rightarrow> row list \<Rightarrow> fl \<Rightarrow> bool" where
  "backend_returns L D T thr =
     (0 < min (length D) (length T)
      \<and> \<not> (Max (set (row_sums (binary_matrix (iou_batch D T) thr))) = 1
             \<and> Max (set (col_sums (length T) (binary_matrix (iou_batch D T) thr))) = 1)
      \<longrightarrow> (\<exists>ps. linear_assignment L (map (map fneg) (iou_batch D T)) = Inr ps
                  \<and> valid_pairs (length D) (length T) ps))"

section \<open>A small library to run the tracker on\<close>

text \<open>
  A stand-in for the libraries, used to run the model on concrete frames: \<open>lap\<close> is not
  installed; the assignment pairs row \<open>i\<close> with column \<open>i\<close> (on a cost matrix with one row
  or one column and a single entry this is the assignment every backend returns); the
  filter has no matrices, \<open>predict\<close> is the step \<open>x \<leftarrow> F x\<close> with the \<open>F\<close> of
  \<open>KalmanBoxTracker.__init__\<close> on finite states, and \<open>update\<close> takes the observation as
  the new \<open>x[:4]\<close>.
\<close>

fun F_step :: "kfx \<Rightarrow> kfx" where
  "F_step (x0, x1, x2, x3, x4, x5, x6) = (fadd x0 x4, fadd x1 x5, fadd x2 x6, x3, x4, x5, x6)"

fun observe :: "kfx \<Rightarrow> box \<Rightarrow> kfx" where
  "observe (x0, x1, x2, x3, x4, x5, x6) (z0, z1, z2, z3) = (z0, z1, z2, z3, x4, x5, x6)"

definition diagonal :: "fl list list \<Rightarrow> int list \<times> int list" where
  "diagonal C =
     (case C of
        [] \<Rightarrow> ([], [])
      | r # rs \<Rightarrow> (map int [0..<min (length C) (length r)],
                   map int [0..<min (length C) (length r)]))"

definition simple_library :: "unit library" where
  "simple_library =
     \<lparr> lap_installed = False,
       lapjv = (\<lambda>C. Inr ([], [])),
       linear_sum_assignment = (\<lambda>C. Inr (diagonal C)),
       KalmanFilter_new = (),
       KalmanFilter_predict = (\<lambda>k. (F_step (fst k), snd k)),
       KalmanFilter_update = (\<lambda>k z. (observe (fst k) z, snd k)) \<rparr>"

text \<open>
  The same library with the check that \<open>scipy.optimize.linear_sum_assignment\<close> makes
  before it solves: a cost matrix with a NaN or with minus infinity raises ValueError.
\<close>

definition invalid_entry :: "fl \<Rightarrow> bool" where
  "invalid_entry v = (isnan v \<or> v = NInf)"

definition checking_library :: "unit library" where
  "checking_library =
     simple_library
       \<lparr> linear_sum_assignment :=
           (\<lambda>C. if list_ex (list_ex invalid_entry) C then Inl ValueError
                else Inr (diagonal C)) \<rparr>"

text \<open>
  A stand-in for a filter whose position overflows: the same as the first, with a
  \<open>predict\<close> that makes an infinity of every value of magnitude \<open>2 ^ 1024\<close> or more.
\<close>

fun overflow :: "fl \<Rightarrow> fl" where
  "overflow (Fin a) = (if 2 ^ 1024 \<le> a then PInf else if a \<le> - (2 ^ 1024) then NInf else Fin a)"
| "overflow v = v"

fun F_step_float64 :: "kfx \<Rightarrow> kfx" where
  "F_step_float64 (x0, x1, x2, x3, x4, x5, x6) =
     (overflow (fadd x0 x4), overflow (fadd x1 x5), overflow (fadd x2 x6), x3, x4, x5, x6)"

definition overflowing_library :: "unit library" where
  "overflowing_library =
     simple_library \<lparr> KalmanFilter_predict := (\<lambda>k. (F_step_float64 (fst k), snd k)) \<rparr>"

section \<open>Values in the range of float64\<close>

lemma float64_in_range: "in_range v \<Longrightarrow> float64 v = Fin v"
proof -
  assume r: "in_range v"
  have a: "(1::real) / 2 ^ 1075 < 1 / 2 ^ 1022"
    by (simp add: field_simps)
  have b: "(2::real) ^ 1024 - 2 ^ 971 < 2 ^ 1024 - 2 ^ 970"
    by simp
  show ?thesis
  proof (cases "v = 0")
    case True
    then show ?thesis by (simp add: float64_def)
  next
    case False
    with r have 1: "1 / 2 ^ 1022 \<le> \<bar>v\<bar>" and 2: "\<bar>v\<bar> \<le> 2 ^ 1024 - 2 ^ 971"
      by (simp_all add: in_range_def)
    from 1 a have "\<not> \<bar>v\<bar> \<le> 1 / 2 ^ 1075" by linarith
    moreover from 2 b have "\<not> 2 ^ 1024 - 2 ^ 970 \<le> v" "\<not> v \<le> - (2 ^ 1024 - 2 ^ 970)"
      by linarith+
    ultimately show ?thesis
      unfolding float64_def by (simp only: if_False)
  qed
qed

lemma fsub_Fin: "fsub (Fin a) (Fin b) = float64 (a - b)"
  by (simp add: fsub_def)

lemma fdiv_Fin: "b \<noteq> 0 \<Longrightarrow> fdiv (Fin a) (Fin b) = float64 (a / b)"
  by simp

section \<open>Round trip between boxes and observations\<close>

text \<open>
  C8, as the code has it. For a box with positive width and positive height such that
  no value of the two conversions overflows or underflows, \<open>convert_x_to_bbox\<close> applied
  to \<open>convert_bbox_to_z\<close> of the box gives the box back, rounding aside; on the way the
  width is recovered as the square root of \<open>s * r\<close> and the height as \<open>s\<close> over that
  width.
\<close>

theorem convert_roundtrip:
  assumes "x1 < x2" and "y1 < y2" and "conversions_in_range x1 y1 x2 y2"
  shows "convert_x_to_bbox (convert_bbox_to_z (Fin x1, Fin y1, Fin x2, Fin y2))
           = (Fin x1, Fin y1, Fin x2, Fin y2)
         \<and> fsqrt (fmul (Fin ((x2 - x1) * (y2 - y1))) (Fin ((x2 - x1) / (y2 - y1))))
           = Fin (x2 - x1)
         \<and> fdiv (Fin ((x2 - x1) * (y2 - y1))) (Fin (x2 - x1)) = Fin (y2 - y1)"
proof -
  let ?w = "x2 - x1"
  let ?h = "y2 - y1"
  have w: "0 < ?w" and h: "0 < ?h"
    using assms by simp_all
  from assms(3) have r: "in_range x1" "in_range y1" "in_range x2" "in_range y2"
      "in_range ?w" "in_range ?h" "in_range (?w / 2)" "in_range (?h / 2)"
      "in_range (x1 + ?w / 2)" "in_range (y1 + ?h / 2)" "in_range (?w * ?h)"
      "in_range (?w / ?h)" "in_range (?w * ?w)"
    by (simp_all add: conversions_in_range_def Let_def)
  note f = r [THEN float64_in_range]
  have sr: "?w * ?h * (?w / ?h) = ?w * ?w"
    using h by simp
  have rt: "sqrt (?w * ?w) = ?w"
    using w by simp
  have hh: "?w * ?h / ?w = ?h"
    using w by simp
  have e: "x1 + ?w / 2 - ?w / 2 = x1" "y1 + ?h / 2 - ?h / 2 = y1"
      "x1 + ?w / 2 + ?w / 2 = x2" "y1 + ?h / 2 + ?h / 2 = y2"
    by simp_all
  have two: "(2::real) \<noteq> 0" by simp
  have wn: "?w \<noteq> 0" and hn: "?h \<noteq> 0"
    using w h by simp_all
  have nn: "0 \<le> ?w * ?w" by simp
  have z: "convert_bbox_to_z (Fin x1, Fin y1, Fin x2, Fin y2)
             = (Fin (x1 + ?w / 2), Fin (y1 + ?h / 2), Fin (?w * ?h), Fin (?w / ?h))"
    by (simp only: convert_bbox_to_z.simps Let_def fsub_Fin f fadd.simps fmul.simps
        fdiv_Fin [OF two] fdiv_Fin [OF hn])
  have s: "fsqrt (fmul (Fin (?w * ?h)) (Fin (?w / ?h))) = Fin ?w"
    by (simp only: fmul.simps sr f fsqrt.simps nn if_True rt)
  have d: "fdiv (Fin (?w * ?h)) (Fin ?w) = Fin ?h"
    by (simp only: fdiv_Fin [OF wn] hh f)
  have b: "convert_x_to_bbox (Fin (x1 + ?w / 2), Fin (y1 + ?h / 2), Fin (?w * ?h), Fin (?w / ?h))
             = (Fin x1, Fin y1, Fin x2, Fin y2)"
    by (simp only: convert_x_to_bbox.simps Let_def s d fdiv_Fin [OF two] f fsub_Fin
        fadd.simps e)
  from z b s d show ?thesis
    by simp
qed

theorem convert_roundtrip_witness:
  "(0::real) < 2 \<and> (1::real) < 2 \<and> conversions_in_range 0 1 2 2
   \<and> convert_x_to_bbox (convert_bbox_to_z (Fin 0, Fin 1, Fin 2, Fin 2))
       = (Fin 0, Fin 1, Fin 2, Fin 2)"
proof -
  have c: "conversions_in_range 0 1 2 2"
    by (simp add: conversions_in_range_def in_range_def)
  from convert_roundtrip [of 0 2 1 2, OF _ _ c] c show ?thesis
    by simp
qed

text \<open>
  C8 as stated fails on boxes with positive width and height at the ends of the range.
  For \<open>(0, 0, 2 ^ 600, 1)\<close> the product \<open>s * r = 2 ^ 1200\<close> overflows: the width comes back
  infinite and the height 0. For the square of side \<open>2 ^ -600\<close> the area \<open>2 ^ -1200\<close>
  underflows to 0: the width comes back 0 and the height is \<open>0 / 0\<close>.
\<close>

theorem convert_roundtrip_counterexample:
  "convert_x_to_bbox (convert_bbox_to_z (Fin 0, Fin 0, Fin (2 ^ 600), Fin 1))
     = (NInf, Fin (1 / 2), PInf, Fin (1 / 2))
   \<and> convert_x_to_bbox (convert_bbox_to_z (Fin 0, Fin 0, Fin (1 / 2 ^ 600), Fin (1 / 2 ^ 600)))
     = (Fin (1 / 2 ^ 601), NaN, Fin (1 / 2 ^ 601), NaN)"
  by (simp add: fsub_def Let_def float64_def inf_of_sign_def)

section \<open>Assignments read off the binary matrix\<close>

lemma two_ones_sum:
  fixes xs :: "int list"
  assumes nn: "list_all (\<lambda>v. 0 \<le> v) xs"
    and j: "j < length xs" and k: "k < length xs" and jk: "j \<noteq> k"
    and vj: "1 \<le> xs ! j" and vk: "1 \<le> xs ! k"
  shows "2 \<le> sum_list xs"
proof -
  have s: "sum_list xs = (\<Sum>i = 0..<length xs. xs ! i)"
    by (rule sum_list_sum_nth)
  have "(\<Sum>i\<in>{j, k}. xs ! i) \<le> (\<Sum>i = 0..<length xs. xs ! i)"
  proof (rule sum_mono2)
    show "finite {0..<length xs}" by simp
    show "{j, k} \<subseteq> {0..<length xs}" using j k by simp
    fix b assume "b \<in> {0..<length xs} - {j, k}"
    then have "b < length xs" by simp
    with nn show "0 \<le> xs ! b" by (simp add: list_all_length)
  qed
  moreover have "(\<Sum>i\<in>{j, k}. xs ! i) = xs ! j + xs ! k"
    using jk by simp
  ultimately show ?thesis
    using vj vk s by linarith
qed

lemma bits_binary_matrix: "bits (binary_matrix M thr)"
  by (auto simp: bits_def binary_matrix_def list_all_iff)

lemma bits_entry:
  "bits a \<Longrightarrow> i < length a \<Longrightarrow> j < length (a ! i) \<Longrightarrow> a ! i ! j \<noteq> 0 \<Longrightarrow> a ! i ! j = 1"
  by (auto simp: bits_def list_all_length)

lemma bits_row_nonneg: "bits a \<Longrightarrow> i < length a \<Longrightarrow> list_all (\<lambda>v. 0 \<le> v) (a ! i)"
proof -
  assume b: "bits a" and i: "i < length a"
  have "a ! i ! k = 0 \<or> a ! i ! k = 1" if "k < length (a ! i)" for k
    using b i that by (simp add: bits_def list_all_length)
  then show ?thesis
    by (fastforce simp: list_all_length)
qed

lemma bits_col_nonneg:
  "bits a \<Longrightarrow> list_all (\<lambda>r. length r = m) a \<Longrightarrow> j < m
     \<Longrightarrow> list_all (\<lambda>v. 0 \<le> v) (map (\<lambda>r. r ! j) a)"
proof -
  assume b: "bits a" and sh: "list_all (\<lambda>r. length r = m) a" and j: "j < m"
  have "a ! i ! j = 0 \<or> a ! i ! j = 1" if "i < length a" for i
    using b sh j that by (simp add: bits_def list_all_length)
  then show ?thesis
    by (fastforce simp: list_all_length)
qed

lemma row_unique:
  assumes b: "bits a" and r: "Max (set (row_sums a)) = 1"
    and i: "i < length a" and j: "j < length (a ! i)" and k: "k < length (a ! i)"
    and vj: "a ! i ! j \<noteq> 0" and vk: "a ! i ! k \<noteq> 0"
  shows "j = k"
proof (rule ccontr)
  assume "j \<noteq> k"
  with two_ones_sum [OF bits_row_nonneg [OF b i] j k]
    bits_entry [OF b i j vj] bits_entry [OF b i k vk]
  have "2 \<le> sum_list (a ! i)" by simp
  moreover have "sum_list (a ! i) \<in> set (row_sums a)"
    using i by (auto simp: row_sums_def)
  then have "sum_list (a ! i) \<le> Max (set (row_sums a))"
    by simp
  ultimately show False using r by simp
qed

lemma col_unique:
  assumes b: "bits a" and sh: "list_all (\<lambda>r. length r = m) a"
    and c: "Max (set (col_sums m a)) = 1"
    and i: "i < length a" and k: "k < length a" and j: "j < m"
    and vi: "a ! i ! j \<noteq> 0" and vk: "a ! k ! j \<noteq> 0"
  shows "i = k"
proof (rule ccontr)
  assume ik: "i \<noteq> k"
  have li: "j < length (a ! i)" and lk: "j < length (a ! k)"
    using sh i k j by (simp_all add: list_all_length)
  have "2 \<le> sum_list (map (\<lambda>r. r ! j) a)"
    using two_ones_sum [OF bits_col_nonneg [OF b sh j], of i k] i k ik
      bits_entry [OF b i li vi] bits_entry [OF b k lk vk]
    by simp
  moreover have "sum_list (map (\<lambda>r. r ! j) a) \<in> set (col_sums m a)"
    using j by (auto simp: col_sums_def)
  then have "sum_list (map (\<lambda>r. r ! j) a) \<le> Max (set (col_sums m a))"
    by simp
  ultimately show False using c by simp
qed

lemma np_where_valid:
  assumes b: "bits a" and n: "length a = n" and sh: "list_all (\<lambda>r. length r = m) a"
    and r: "Max (set (row_sums a)) = 1" and c: "Max (set (col_sums m a)) = 1"
  shows "distinct (map fst (np_where n m a))"
    and "distinct (map snd (np_where n m a))"
    and "list_all (\<lambda>p. 0 \<le> fst p \<and> fst p < int n \<and> 0 \<le> snd p \<and> snd p < int m) (np_where n m a)"
proof -
  let ?xs = "filter (\<lambda>(i, j). a ! i ! j \<noteq> 0) (List.product [0..<n] [0..<m])"
  have d: "distinct ?xs"
    by (simp add: distinct_product)
  have mem: "\<And>i j. (i, j) \<in> set ?xs \<Longrightarrow> i < n \<and> j < m \<and> a ! i ! j \<noteq> 0"
    by auto
  have len: "\<And>i. i < n \<Longrightarrow> length (a ! i) = m"
    using sh n by (simp add: list_all_length)
  have f: "map fst (np_where n m a) = map (\<lambda>p. int (fst p)) ?xs"
    by (simp add: np_where_def case_prod_unfold)
  have s: "map snd (np_where n m a) = map (\<lambda>p. int (snd p)) ?xs"
    by (simp add: np_where_def case_prod_unfold)
  have "inj_on (\<lambda>p. int (fst p)) (set ?xs)"
  proof (rule inj_onI)
    fix p q assume p: "p \<in> set ?xs" and q: "q \<in> set ?xs" and e: "int (fst p) = int (fst q)"
    obtain i j where pp: "p = (i, j)" by (cases p)
    obtain i' j' where qq: "q = (i', j')" by (cases q)
    from e pp qq have ii: "i' = i" by simp
    from mem p pp have 1: "i < n" "j < m" "a ! i ! j \<noteq> 0" by blast+
    from mem q qq ii have 2: "j' < m" "a ! i ! j' \<noteq> 0" by blast+
    have "j = j'"
      using row_unique [OF b r, of i j j'] 1 2 n len by simp
    with pp qq ii show "p = q" by simp
  qed
  with d show "distinct (map fst (np_where n m a))"
    unfolding f by (simp add: distinct_map)
  have "inj_on (\<lambda>p. int (snd p)) (set ?xs)"
  proof (rule inj_onI)
    fix p q assume p: "p \<in> set ?xs" and q: "q \<in> set ?xs" and e: "int (snd p) = int (snd q)"
    obtain i j where pp: "p = (i, j)" by (cases p)
    obtain i' j' where qq: "q = (i', j')" by (cases q)
    from e pp qq have jj: "j' = j" by simp
    from mem p pp have 1: "i < n" "j < m" "a ! i ! j \<noteq> 0" by blast+
    from mem q qq jj have 2: "i' < n" "a ! i' ! j \<noteq> 0" by blast+
    have "i = i'"
      using col_unique [OF b sh c, of i i' j] 1 2 n by simp
    with pp qq jj show "p = q" by simp
  qed
  with d show "distinct (map snd (np_where n m a))"
    unfolding s by (simp add: distinct_map)
  show "list_all (\<lambda>p. 0 \<le> fst p \<and> fst p < int n \<and> 0 \<le> snd p \<and> snd p < int m) (np_where n m a)"
    by (auto simp: np_where_def list_all_iff)
qed

section \<open>Indexing\<close>

lemma py_index_range: "0 \<le> i \<Longrightarrow> i < int n \<Longrightarrow> py_index n i = Inr (nat i)"
  by (simp add: py_index_def)

lemma py_index_nat: "k < n \<Longrightarrow> py_index n (int k) = Inr k"
  by (simp add: py_index_def)

lemma py_index_less: "py_index n i = Inr j \<Longrightarrow> j < n"
  by (auto simp: py_index_def Let_def split: if_splits)

lemma py_nth_range: "0 \<le> i \<Longrightarrow> i < int (length xs) \<Longrightarrow> py_nth xs i = Inr (xs ! nat i)"
  by (simp add: py_nth_def py_index_range)

lemma iou_batch_shape:
  "length (iou_batch D T) = length D"
  "list_all (\<lambda>r. length r = length T) (iou_batch D T)"
  by (simp_all add: iou_batch_def list_all_iff)

lemma iou_at_range:
  assumes "0 \<le> fst p" "fst p < int (length D)" "0 \<le> snd p" "snd p < int (length T)"
  shows "iou_at (iou_batch D T) p = Inr (iou (D ! nat (fst p)) (T ! nat (snd p)))"
  using assms by (simp add: iou_at_def py_nth_range iou_batch_def)

section \<open>The filter on low IOU\<close>

lemma filter_low_iou_Inr:
  "filter_low_iou M thr ps ud ut ms = Inr res \<Longrightarrow>
     list_all (\<lambda>m. \<exists>v. iou_at M m = Inr v) ps \<and>
     res = (ms @ filter (\<lambda>m. \<not> low M thr m) ps,
            ud @ map fst (filter (low M thr) ps),
            ut @ map snd (filter (low M thr) ps))"
proof (induction ps arbitrary: ud ut ms)
  case Nil
  then show ?case by simp
next
  case (Cons m ps)
  from Cons.prems obtain r where r: "py_nth M (fst m) = Inr r"
    by (auto split: sum.splits)
  from Cons.prems r obtain v where v: "py_nth r (snd m) = Inr v"
    by (auto split: sum.splits)
  have at: "iou_at M m = Inr v"
    by (simp add: iou_at_def r v)
  show ?case
  proof (cases "fless v thr")
    case True
    with Cons.prems r v have "filter_low_iou M thr ps (ud @ [fst m]) (ut @ [snd m]) ms = Inr res"
      by simp
    from Cons.IH [OF this] show ?thesis
      using at True by (simp add: low_def)
  next
    case False
    with Cons.prems r v have "filter_low_iou M thr ps ud ut (ms @ [m]) = Inr res"
      by simp
    from Cons.IH [OF this] show ?thesis
      using at False by (simp add: low_def)
  qed
qed

lemma filter_low_iou_total:
  "list_all (\<lambda>m. \<exists>v. iou_at M m = Inr v) ps \<Longrightarrow>
     \<exists>res. filter_low_iou M thr ps ud ut ms = Inr res"
proof (induction ps arbitrary: ud ut ms)
  case Nil
  then show ?case by simp
next
  case (Cons m ps)
  then obtain v where v: "iou_at M m = Inr v" by auto
  then obtain r where r: "py_nth M (fst m) = Inr r" "py_nth r (snd m) = Inr v"
    by (auto simp: iou_at_def split: sum.splits)
  from Cons show ?case
    by (simp add: r)
qed

section \<open>The proposed pairs\<close>

lemma int_image_range: "0 \<le> a \<Longrightarrow> a < int n \<Longrightarrow> a \<in> int ` {0..<n}"
  by (rule image_eqI [where x = "nat a"]) simp_all

lemma solver_ok_returns: "solver_ok L \<Longrightarrow> backend_returns L D T thr"
proof -
  assume ok: "solver_ok L"
  let ?C = "map (map fneg) (iou_batch D T)"
  have "\<exists>ps. linear_assignment L ?C = Inr ps \<and> valid_pairs (length D) (length T) ps"
    if "0 < min (length D) (length T)"
  proof -
    from that have "0 < length D \<and> 0 < length T \<and> length ?C = length D
            \<and> list_all (\<lambda>r. length r = length T) ?C"
      by (simp add: iou_batch_def list_all_iff)
    with ok show ?thesis
      unfolding solver_ok_def by blast
  qed
  then show ?thesis
    unfolding backend_returns_def by blast
qed

lemma finite_fneg: "isnan (fneg v) = isnan v" "isinf (fneg v) = isinf v"
  by (cases v; simp)+

lemma solver_ok_finite_returns:
  assumes ok: "solver_ok_finite L" and fin: "finite_matrix (iou_batch D T)"
  shows "backend_returns L D T thr"
proof -
  let ?C = "map (map fneg) (iou_batch D T)"
  have fc: "finite_matrix ?C"
    using fin by (simp add: finite_matrix_def list_all_iff finite_fneg)
  have "\<exists>ps. linear_assignment L ?C = Inr ps \<and> valid_pairs (length D) (length T) ps"
    if "0 < min (length D) (length T)"
  proof -
    from that fc have "0 < length D \<and> 0 < length T \<and> length ?C = length D
            \<and> list_all (\<lambda>r. length r = length T) ?C \<and> finite_matrix ?C"
      by (simp add: iou_batch_def list_all_iff)
    with ok show ?thesis
      unfolding solver_ok_finite_def by blast
  qed
  then show ?thesis
    unfolding backend_returns_def by blast
qed

lemma matched_indices_valid:
  assumes ok: "backend_returns L D T thr"
  shows "\<exists>mi. matched_indices L D T thr = Inr mi \<and> distinct (map fst mi)
           \<and> distinct (map snd mi)
           \<and> list_all (\<lambda>p. 0 \<le> fst p \<and> fst p < int (length D)
                             \<and> 0 \<le> snd p \<and> snd p < int (length T)) mi"
proof (cases "0 < min (length D) (length T)")
  case False
  then show ?thesis
    by (auto simp: matched_indices_def Let_def)
next
  case True
  let ?a = "binary_matrix (iou_batch D T) thr"
  have la: "length ?a = length D"
    by (simp add: binary_matrix_def iou_batch_def)
  have sh: "list_all (\<lambda>r. length r = length T) ?a"
    by (simp add: binary_matrix_def iou_batch_def list_all_iff)
  show ?thesis
  proof (cases "Max (set (row_sums ?a)) = 1 \<and> Max (set (col_sums (length T) ?a)) = 1")
    case fast: True
    then have "matched_indices L D T thr = Inr (np_where (length D) (length T) ?a)"
      using True by (simp add: matched_indices_def Let_def)
    with np_where_valid [OF bits_binary_matrix la sh] fast show ?thesis
      by simp
  next
    case slow: False
    let ?C = "map (map fneg) (iou_batch D T)"
    from ok True slow obtain ps where ps: "linear_assignment L ?C = Inr ps"
        and v: "valid_pairs (length D) (length T) ps"
      unfolding backend_returns_def by blast
    from v obtain p ps' where c: "ps = p # ps'"
      by (cases ps) (simp_all add: valid_pairs_def)
    have "matched_indices L D T thr = Inr ps"
      using True slow ps c by (auto simp: matched_indices_def Let_def)
    with v show ?thesis
      by (simp add: valid_pairs_def)
  qed
qed

lemma mset_unmatched_of:
  assumes d: "distinct col" and r: "set col \<subseteq> int ` {0..<n}"
  shows "mset (unmatched_of n col) + mset col = mset (map int [0..<n])"
proof -
  let ?r = "map int [0..<n]"
  have dr: "distinct ?r"
    by (simp add: distinct_map)
  have "mset (filter (\<lambda>d. d \<in> set col) ?r) = mset col"
  proof (rule set_eq_iff_mset_eq_distinct [THEN iffD1])
    show "distinct (filter (\<lambda>d. d \<in> set col) ?r)" using dr by simp
    show "distinct col" by (rule d)
    show "set (filter (\<lambda>d. d \<in> set col) ?r) = set col" using r by auto
  qed
  moreover have "mset (filter (\<lambda>d. d \<notin> set col) ?r) + mset (filter (\<lambda>d. d \<in> set col) ?r) = mset ?r"
    by (metis add.commute mset_filter multiset_partition)
  ultimately show ?thesis
    by (simp add: unmatched_of_def)
qed

lemma mset_map_partition:
  "mset (map f (filter (\<lambda>m. \<not> P m) xs)) + mset (map f (filter P xs)) = mset (map f xs)"
  by (induction xs) simp_all

section \<open>What the association returns\<close>

lemma associate_shape_local:
  assumes "backend_returns L D T thr"
  shows "\<exists>mi. distinct (map fst mi) \<and> distinct (map snd mi)
           \<and> list_all (\<lambda>p. 0 \<le> fst p \<and> fst p < int (length D)
                             \<and> 0 \<le> snd p \<and> snd p < int (length T)) mi
           \<and> associate_detections_to_trackers L D T thr =
               Inr (filter (\<lambda>m. \<not> low (iou_batch D T) thr m) mi,
                    unmatched_of (length D) (map fst mi)
                      @ map fst (filter (low (iou_batch D T) thr) mi),
                    unmatched_of (length T) (map snd mi)
                      @ map snd (filter (low (iou_batch D T) thr) mi))"
proof (cases "length T = 0")
  case True
  then have "associate_detections_to_trackers L D T thr
               = Inr (filter (\<lambda>m. \<not> low (iou_batch D T) thr m) [],
                      unmatched_of (length D) (map fst [])
                        @ map fst (filter (low (iou_batch D T) thr) []),
                      unmatched_of (length T) (map snd [])
                        @ map snd (filter (low (iou_batch D T) thr) []))"
    by (simp add: associate_detections_to_trackers_def unmatched_of_def)
  then show ?thesis
    by (intro exI [where x = "[]"]) simp
next
  case False
  let ?M = "iou_batch D T"
  from matched_indices_valid [OF assms] obtain mi where
    mi: "matched_indices L D T thr = Inr mi"
    and df: "distinct (map fst mi)" and ds: "distinct (map snd mi)"
    and rg: "list_all (\<lambda>p. 0 \<le> fst p \<and> fst p < int (length D)
                            \<and> 0 \<le> snd p \<and> snd p < int (length T)) mi"
    by blast
  have "list_all (\<lambda>m. \<exists>v. iou_at ?M m = Inr v) mi"
    using rg by (auto simp: list_all_iff iou_at_range)
  from filter_low_iou_total [OF this] obtain res where
    res: "filter_low_iou ?M thr mi (unmatched_of (length D) (map fst mi))
            (unmatched_of (length T) (map snd mi)) [] = Inr res"
    by blast
  from filter_low_iou_Inr [OF res] have
    r: "res = (filter (\<lambda>m. \<not> low ?M thr m) mi,
               unmatched_of (length D) (map fst mi) @ map fst (filter (low ?M thr) mi),
               unmatched_of (length T) (map snd mi) @ map snd (filter (low ?M thr) mi))"
    by simp
  have "associate_detections_to_trackers L D T thr = Inr res"
    using False mi res by (simp add: associate_detections_to_trackers_def)
  with df ds rg show ?thesis
    unfolding r by blast
qed

lemma associate_shape:
  assumes "solver_ok L"
  shows "\<exists>mi. distinct (map fst mi) \<and> distinct (map snd mi)
           \<and> list_all (\<lambda>p. 0 \<le> fst p \<and> fst p < int (length D)
                             \<and> 0 \<le> snd p \<and> snd p < int (length T)) mi
           \<and> associate_detections_to_trackers L D T thr =
               Inr (filter (\<lambda>m. \<not> low (iou_batch D T) thr m) mi,
                    unmatched_of (length D) (map fst mi)
                      @ map fst (filter (low (iou_batch D T) thr) mi),
                    unmatched_of (length T) (map snd mi)
                      @ map snd (filter (low (iou_batch D T) thr) mi))"
  by (rule associate_shape_local [OF solver_ok_returns [OF assms]])

lemma match_not_below:
  assumes "associate_detections_to_trackers L D T thr = Inr (matches, ud, ut)"
    and "p \<in> set matches"
  shows "\<exists>v. iou_at (iou_batch D T) p = Inr v \<and> \<not> fless v thr"
proof (cases "length T = 0")
  case True
  with assms show ?thesis
    by (simp add: associate_detections_to_trackers_def)
next
  case False
  with assms obtain mi where
    f: "filter_low_iou (iou_batch D T) thr mi (unmatched_of (length D) (map fst mi))
          (unmatched_of (length T) (map snd mi)) [] = Inr (matches, ud, ut)"
    by (auto simp: associate_detections_to_trackers_def split: sum.splits)
  from filter_low_iou_Inr [OF f]
  have a: "list_all (\<lambda>m. \<exists>v. iou_at (iou_batch D T) m = Inr v) mi"
    and m: "matches = filter (\<lambda>m. \<not> low (iou_batch D T) thr m) mi"
    by simp_all
  from m assms(2) have p: "p \<in> set mi" and l: "\<not> low (iou_batch D T) thr p"
    by simp_all
  from a p obtain v where "iou_at (iou_batch D T) p = Inr v"
    by (auto simp: list_all_iff)
  with l show ?thesis
    by (simp add: low_def)
qed

text \<open>
  C6. With an assignment backend that returns valid pairs, the association returns, and
  its three outputs partition the indices: the detection indices \<open>0 .. |D|-1\<close> are,
  each exactly once, the first components of the matches together with the unmatched
  detections, and the track indices \<open>0 .. |T|-1\<close> are, each exactly once, the second
  components of the matches together with the unmatched tracks.
\<close>

theorem association_partitions:
  assumes "solver_ok L"
  shows "\<exists>matches ud ut.
           associate_detections_to_trackers L D T thr = Inr (matches, ud, ut)
           \<and> mset (map fst matches @ ud) = mset (map int [0..<length D])
           \<and> mset (map snd matches @ ut) = mset (map int [0..<length T])"
proof -
  let ?M = "iou_batch D T"
  from associate_shape [OF assms, of D T thr] obtain mi where
    df: "distinct (map fst mi)" and ds: "distinct (map snd mi)"
    and rg: "list_all (\<lambda>p. 0 \<le> fst p \<and> fst p < int (length D)
                            \<and> 0 \<le> snd p \<and> snd p < int (length T)) mi"
    and a: "associate_detections_to_trackers L D T thr =
               Inr (filter (\<lambda>m. \<not> low ?M thr m) mi,
                    unmatched_of (length D) (map fst mi) @ map fst (filter (low ?M thr) mi),
                    unmatched_of (length T) (map snd mi) @ map snd (filter (low ?M thr) mi))"
    by blast
  have sf: "set (map fst mi) \<subseteq> int ` {0..<length D}"
    using rg by (auto simp: list_all_iff intro!: int_image_range)
  have ss: "set (map snd mi) \<subseteq> int ` {0..<length T}"
    using rg by (auto simp: list_all_iff intro!: int_image_range)
  have 1: "mset (map fst (filter (\<lambda>m. \<not> low ?M thr m) mi)
             @ unmatched_of (length D) (map fst mi) @ map fst (filter (low ?M thr) mi))
           = mset (map int [0..<length D])"
    using mset_unmatched_of [OF df sf] mset_map_partition [of fst "low ?M thr" mi]
    by (simp add: ac_simps)
  have 2: "mset (map snd (filter (\<lambda>m. \<not> low ?M thr m) mi)
             @ unmatched_of (length T) (map snd mi) @ map snd (filter (low ?M thr) mi))
           = mset (map int [0..<length T])"
    using mset_unmatched_of [OF ds ss] mset_map_partition [of snd "low ?M thr" mi]
    by (simp add: ac_simps)
  show ?thesis
    using a 1 2 by blast
qed

section \<open>The small libraries are valid backends\<close>

lemma diagonal_valid:
  assumes a: "0 < n \<and> 0 < m \<and> length C = n \<and> list_all (\<lambda>r. length r = m) C"
  shows "\<exists>ps. (case diagonal C of (x, y) \<Rightarrow> zip x y) = ps \<and> valid_pairs n m ps"
proof -
  from a obtain r rs where c: "C = r # rs" by (cases C) auto
  with a have lr: "length r = m" by simp
  let ?k = "min n m"
  let ?xs = "map int [0..<?k]"
  have la: "(case diagonal C of (x, y) \<Rightarrow> zip x y) = zip ?xs ?xs"
    using a c lr by (simp add: diagonal_def)
  have z: "map fst (zip ?xs ?xs) = ?xs" "map snd (zip ?xs ?xs) = ?xs"
    by (simp_all add: zip_same_conv_map comp_def)
  have ne: "zip ?xs ?xs \<noteq> []"
    using a by (simp add: zip_same_conv_map)
  have "valid_pairs n m (zip ?xs ?xs)"
    unfolding valid_pairs_def z using ne
    by (auto simp: distinct_map list_all_iff zip_same_conv_map)
  with la show ?thesis
    by simp
qed

lemma simple_library_ok: "solver_ok simple_library"
  unfolding solver_ok_def
proof (intro allI impI)
  fix C :: "fl list list" and n m :: nat
  assume a: "0 < n \<and> 0 < m \<and> length C = n \<and> list_all (\<lambda>r. length r = m) C"
  have "linear_assignment simple_library C = Inr (case diagonal C of (x, y) \<Rightarrow> zip x y)"
    by (simp add: linear_assignment_def simple_library_def split: prod.splits)
  with diagonal_valid [OF a]
  show "\<exists>ps. linear_assignment simple_library C = Inr ps \<and> valid_pairs n m ps"
    by simp
qed

lemma finite_not_invalid: "finite_matrix C \<Longrightarrow> \<not> list_ex (list_ex invalid_entry) C"
proof -
  have "\<not> invalid_entry v" if "\<not> isnan v \<and> \<not> isinf v" for v
    using that by (cases v) (simp_all add: invalid_entry_def)
  then show "finite_matrix C \<Longrightarrow> \<not> list_ex (list_ex invalid_entry) C"
    by (auto simp: finite_matrix_def list_all_iff list_ex_iff)
qed

lemma checking_library_ok: "solver_ok_finite checking_library"
  unfolding solver_ok_finite_def
proof (intro allI impI)
  fix C :: "fl list list" and n m :: nat
  assume a: "0 < n \<and> 0 < m \<and> length C = n \<and> list_all (\<lambda>r. length r = m) C
               \<and> finite_matrix C"
  then have "\<not> list_ex (list_ex invalid_entry) C"
    by (simp add: finite_not_invalid)
  then have "linear_assignment checking_library C
               = Inr (case diagonal C of (x, y) \<Rightarrow> zip x y)"
    by (simp add: linear_assignment_def checking_library_def simple_library_def
        split: prod.splits)
  moreover from a have "0 < n \<and> 0 < m \<and> length C = n \<and> list_all (\<lambda>r. length r = m) C"
    by simp
  note diagonal_valid [OF this]
  ultimately
  show "\<exists>ps. linear_assignment checking_library C = Inr ps \<and> valid_pairs n m ps"
    by simp
qed

lemmas assoc_defs =
  associate_detections_to_trackers_def matched_indices_def iou_batch_def
  fmaximum_def fminimum_def fsub_def Let_def float64_def inf_of_sign_def
  binary_matrix_def fgreater_def row_sums_def col_sums_def np_where_def unmatched_of_def
  py_nth_def py_index_def linear_assignment_def simple_library_def checking_library_def
  diagonal_def invalid_entry_def

theorem association_partitions_witness:
  "solver_ok simple_library
   \<and> associate_detections_to_trackers simple_library
       [(Fin 0, Fin 0, Fin 10, Fin 10, Fin 1), (Fin 1, Fin 1, Fin 11, Fin 11, Fin 1)]
       [(Fin 0, Fin 0, Fin 10, Fin 10, Fin 0)] (Fin (3 / 10)) = Inr ([(0, 0)], [1], [])
   \<and> mset (map fst [(0, 0)] @ [1]) = mset (map int [0..<2])
   \<and> mset (map snd [(0::int, 0)] @ []) = mset (map int [0..<1])"
proof -
  have e: "associate_detections_to_trackers simple_library
       [(Fin 0, Fin 0, Fin 10, Fin 10, Fin 1), (Fin 1, Fin 1, Fin 11, Fin 11, Fin 1)]
       [(Fin 0, Fin 0, Fin 10, Fin 10, Fin 0)] (Fin (3 / 10)) = Inr ([(0, 0)], [1], [])"
    by (simp add: assoc_defs)
  from association_partitions [OF simple_library_ok,
      of "[(Fin 0, Fin 0, Fin 10, Fin 10, Fin 1), (Fin 1, Fin 1, Fin 11, Fin 11, Fin 1)]"
         "[(Fin 0, Fin 0, Fin 10, Fin 10, Fin 0)]" "Fin (3 / 10)"]
  show ?thesis
    unfolding e using simple_library_ok by (simp add: numeral_2_eq_2)
qed

text \<open>
  C3. Whatever the backend proposes, every pair in the matches that
  \<open>associate_detections_to_trackers\<close> returns indexes an entry of the IOU matrix that is
  not below the threshold. The matches are among the pairs proposed (by the fast path or
  by the backend), and of these pairs, each one whose entry is below the threshold is
  demoted: it is not in the matches, its detection is in the unmatched detections and
  its track is in the unmatched tracks; each other one is in the matches.
\<close>

theorem no_match_below_threshold:
  assumes "associate_detections_to_trackers L D T thr = Inr (matches, ud, ut)"
  shows "(\<forall>m\<in>set matches. \<exists>v. iou_at (iou_batch D T) m = Inr v \<and> \<not> fless v thr)
         \<and> (if T = [] then matches = []
             else \<exists>mi. matched_indices L D T thr = Inr mi
                    \<and> set matches \<subseteq> set mi
                    \<and> (\<forall>m\<in>set mi. \<exists>v. iou_at (iou_batch D T) m = Inr v
                          \<and> (if fless v thr
                              then m \<notin> set matches \<and> fst m \<in> set ud \<and> snd m \<in> set ut
                              else m \<in> set matches)))"
proof (cases "T = []")
  case True
  with assms show ?thesis
    by (simp add: associate_detections_to_trackers_def)
next
  case False
  let ?M = "iou_batch D T"
  from assms False obtain mi where mi: "matched_indices L D T thr = Inr mi"
    and f: "filter_low_iou ?M thr mi (unmatched_of (length D) (map fst mi))
              (unmatched_of (length T) (map snd mi)) [] = Inr (matches, ud, ut)"
    by (auto simp: associate_detections_to_trackers_def split: sum.splits)
  from filter_low_iou_Inr [OF f]
  have a: "list_all (\<lambda>m. \<exists>v. iou_at ?M m = Inr v) mi"
    and m: "matches = filter (\<lambda>m. \<not> low ?M thr m) mi"
    and d: "ud = unmatched_of (length D) (map fst mi) @ map fst (filter (low ?M thr) mi)"
    and t: "ut = unmatched_of (length T) (map snd mi) @ map snd (filter (low ?M thr) mi)"
    by simp_all
  have 1: "\<forall>m\<in>set matches. \<exists>v. iou_at ?M m = Inr v \<and> \<not> fless v thr"
    using assms by (blast dest: match_not_below)
  have 2: "\<exists>v. iou_at ?M p = Inr v
              \<and> (if fless v thr
                  then p \<notin> set matches \<and> fst p \<in> set ud \<and> snd p \<in> set ut
                  else p \<in> set matches)"
    if p: "p \<in> set mi" for p
  proof -
    from a p obtain v where v: "iou_at ?M p = Inr v"
      by (auto simp: list_all_iff)
    then have l: "low ?M thr p = fless v thr"
      by (simp add: low_def)
    show ?thesis
    proof (cases "fless v thr")
      case True
      with l p have "p \<in> set (filter (low ?M thr) mi)" by simp
      then have "fst p \<in> set ud" and "snd p \<in> set ut"
        unfolding d t by auto
      moreover have "p \<notin> set matches"
        unfolding m using l True by simp
      ultimately show ?thesis
        using v True by simp
    next
      case False
      with l p have "p \<in> set matches"
        unfolding m by simp
      with v False show ?thesis by simp
    qed
  qed
  have 3: "set matches \<subseteq> set mi"
    unfolding m by auto
  from False mi 1 2 3 show ?thesis
    by auto
qed

theorem no_match_below_threshold_witness:
  "associate_detections_to_trackers simple_library
     [(Fin 0, Fin 0, Fin 10, Fin 10, Fin 1), (Fin 0, Fin 0, Fin 10, Fin 20, Fin 1)]
     [(Fin 0, Fin 0, Fin 10, Fin 10, Fin 0), (Fin 0, Fin 18, Fin 10, Fin 38, Fin 0)]
     (Fin (3 / 10)) = Inr ([(0, 0)], [1], [1])
   \<and> matched_indices simple_library
     [(Fin 0, Fin 0, Fin 10, Fin 10, Fin 1), (Fin 0, Fin 0, Fin 10, Fin 20, Fin 1)]
     [(Fin 0, Fin 0, Fin 10, Fin 10, Fin 0), (Fin 0, Fin 18, Fin 10, Fin 38, Fin 0)]
     (Fin (3 / 10)) = Inr [(0, 0), (1, 1)]
   \<and> iou_batch
     [(Fin 0, Fin 0, Fin 10, Fin 10, Fin 1), (Fin 0, Fin 0, Fin 10, Fin 20, Fin 1)]
     [(Fin 0, Fin 0, Fin 10, Fin 10, Fin 0), (Fin 0, Fin 18, Fin 10, Fin 38, Fin 0)]
     = [[Fin 1, Fin 0], [Fin (1 / 2), Fin (1 / 19)]]
   \<and> \<not> fless (Fin 1) (Fin (3 / 10)) \<and> fless (Fin (1 / 19)) (Fin (3 / 10))"
proof -
  let ?D = "[(Fin 0, Fin 0, Fin 10, Fin 10, Fin 1), (Fin 0, Fin 0, Fin 10, Fin 20, Fin 1)]"
  let ?T = "[(Fin 0, Fin 0, Fin 10, Fin 10, Fin 0), (Fin 0, Fin 18, Fin 10, Fin 38, Fin 0)]"
  have i: "iou_batch ?D ?T = [[Fin 1, Fin 0], [Fin (1 / 2), Fin (1 / 19)]]"
    by (simp add: iou_batch_def fmaximum_def fminimum_def fsub_def Let_def float64_def)
  have e: "associate_detections_to_trackers simple_library ?D ?T (Fin (3 / 10))
             = Inr ([(0, 0)], [1], [1])"
    by (simp add: associate_detections_to_trackers_def matched_indices_def i Let_def
        binary_matrix_def fgreater_def row_sums_def col_sums_def np_where_def
        unmatched_of_def py_nth_def py_index_def linear_assignment_def simple_library_def
        diagonal_def numeral_2_eq_2)
  have c: "matched_indices simple_library ?D ?T (Fin (3 / 10)) = Inr [(0, 0), (1, 1)]"
    by (simp add: matched_indices_def i Let_def binary_matrix_def fgreater_def row_sums_def
        col_sums_def linear_assignment_def simple_library_def diagonal_def numeral_2_eq_2)
  from no_match_below_threshold [OF e] show ?thesis
    using e c i by simp
qed

section \<open>The two comparisons with the threshold\<close>

lemma fless_irrefl: "\<not> fless a a"
  by (cases a) simp_all

lemma binary_matrix_nth:
  "d < length D \<Longrightarrow> t < length T \<Longrightarrow>
     binary_matrix (iou_batch D T) thr ! d ! t
       = (if fgreater (iou (D ! d) (T ! t)) thr then 1 else 0)"
  by (simp add: binary_matrix_def iou_batch_def)

lemma iou_at_nat:
  "d < length D \<Longrightarrow> t < length T \<Longrightarrow>
     iou_at (iou_batch D T) (int d, int t) = Inr (iou (D ! d) (T ! t))"
  using iou_at_range [of "(int d, int t)" D T] by simp

text \<open>
  C10. A pair whose IOU equals the threshold is a zero of the binary matrix of the fast
  path, which counts only entries strictly greater than the threshold; when the fast
  path is not taken and the backend proposes that pair, the filter, which demotes only
  entries strictly below the threshold, keeps it as a match.
\<close>

theorem threshold_asymmetry:
  assumes d: "d < length D" and t: "t < length T"
    and eq: "iou (D ! d) (T ! t) = thr"
    and slow: "\<not> (Max (set (row_sums (binary_matrix (iou_batch D T) thr))) = 1
                 \<and> Max (set (col_sums (length T) (binary_matrix (iou_batch D T) thr))) = 1)"
    and ps: "linear_assignment L (map (map fneg) (iou_batch D T)) = Inr ps"
    and v: "valid_pairs (length D) (length T) ps"
    and p: "(int d, int t) \<in> set ps"
  shows "binary_matrix (iou_batch D T) thr ! d ! t = 0
         \<and> (\<exists>matches ud ut.
               associate_detections_to_trackers L D T thr = Inr (matches, ud, ut)
               \<and> (int d, int t) \<in> set matches)"
proof -
  let ?M = "iou_batch D T"
  have b: "binary_matrix ?M thr ! d ! t = 0"
    using d t eq by (simp add: binary_matrix_nth fgreater_def fless_irrefl)
  from v obtain q qs where c: "ps = q # qs"
    by (cases ps) (simp_all add: valid_pairs_def)
  have pos: "0 < min (length D) (length T)"
    using d t by auto
  have mi: "matched_indices L D T thr = Inr ps"
    using pos slow ps c by (auto simp: matched_indices_def Let_def)
  have "list_all (\<lambda>m. \<exists>v. iou_at ?M m = Inr v) ps"
    using v by (auto simp: valid_pairs_def list_all_iff iou_at_range)
  from filter_low_iou_total [OF this] obtain res where
    res: "filter_low_iou ?M thr ps (unmatched_of (length D) (map fst ps))
            (unmatched_of (length T) (map snd ps)) [] = Inr res"
    by blast
  from filter_low_iou_Inr [OF res] have
    r: "res = (filter (\<lambda>m. \<not> low ?M thr m) ps,
               unmatched_of (length D) (map fst ps) @ map fst (filter (low ?M thr) ps),
               unmatched_of (length T) (map snd ps) @ map snd (filter (low ?M thr) ps))"
    by simp
  have a: "associate_detections_to_trackers L D T thr = Inr res"
    using t mi res by (auto simp: associate_detections_to_trackers_def)
  have "\<not> low ?M thr (int d, int t)"
    using d t eq by (simp add: low_def iou_at_nat fless_irrefl)
  with p have "(int d, int t) \<in> set (filter (\<lambda>m. \<not> low ?M thr m) ps)"
    by simp
  with a b show ?thesis
    unfolding r by blast
qed

theorem threshold_asymmetry_witness:
  "iou ([(Fin 0, Fin 0, Fin 2, Fin 1, Fin 1)] ! 0) ([(Fin 0, Fin 0, Fin 1, Fin 1, Fin 0)] ! 0)
     = Fin (1 / 2)
   \<and> linear_assignment simple_library
       (map (map fneg) (iou_batch [(Fin 0, Fin 0, Fin 2, Fin 1, Fin 1)]
                                  [(Fin 0, Fin 0, Fin 1, Fin 1, Fin 0)])) = Inr [(0, 0)]
   \<and> binary_matrix (iou_batch [(Fin 0, Fin 0, Fin 2, Fin 1, Fin 1)]
                               [(Fin 0, Fin 0, Fin 1, Fin 1, Fin 0)]) (Fin (1 / 2)) ! 0 ! 0 = 0
   \<and> associate_detections_to_trackers simple_library
       [(Fin 0, Fin 0, Fin 2, Fin 1, Fin 1)] [(Fin 0, Fin 0, Fin 1, Fin 1, Fin 0)]
       (Fin (1 / 2)) = Inr ([(0, 0)], [], [])"
proof -
  let ?D = "[(Fin 0, Fin 0, Fin 2, Fin 1, Fin 1)]"
  let ?T = "[(Fin 0, Fin 0, Fin 1, Fin 1, Fin 0)]"
  have i: "iou (?D ! 0) (?T ! 0) = Fin (1 / 2)"
    by (simp add: fmaximum_def fminimum_def fsub_def Let_def float64_def)
  have m: "iou_batch ?D ?T = [[Fin (1 / 2)]]"
    using i by (simp add: iou_batch_def)
  have s: "\<not> (Max (set (row_sums (binary_matrix (iou_batch ?D ?T) (Fin (1 / 2))))) = 1
             \<and> Max (set (col_sums (length ?T) (binary_matrix (iou_batch ?D ?T) (Fin (1 / 2))))) = 1)"
    unfolding m by (simp add: binary_matrix_def row_sums_def fgreater_def)
  have l: "linear_assignment simple_library (map (map fneg) (iou_batch ?D ?T)) = Inr [(0, 0)]"
    unfolding m by (simp add: linear_assignment_def simple_library_def diagonal_def)
  have v: "valid_pairs (length ?D) (length ?T) [(0, 0)]"
    by (simp add: valid_pairs_def)
  have e: "associate_detections_to_trackers simple_library ?D ?T (Fin (1 / 2))
             = Inr ([(0, 0)], [], [])"
    by (simp add: assoc_defs)
  from threshold_asymmetry [of 0 ?D 0 ?T "Fin (1 / 2)" simple_library "[(0, 0)]", OF _ _ i s l v]
  show ?thesis
    using i l e by simp
qed

section \<open>The last loop of a frame\<close>

declare emit_and_remove.simps [simp del]

lemma list_pop_middle: "list_pop (pre @ x # suf) (int (length pre)) = Inr (pre @ suf)"
  by (simp add: list_pop_def py_index_def)

lemma emit_and_remove_split:
  "emit_and_remove ma mh fc (int (length pre) - 1) (int (length pre)) (pre @ suf) ret
     = Inr (filter (\<lambda>t. \<not> ma < time_since_update t) pre @ suf,
            ret @ map ret_row (filter (emitted mh fc) (rev pre)))"
proof (induction pre arbitrary: suf ret rule: rev_induct)
  case Nil
  show ?case
    by (subst emit_and_remove.simps) simp
next
  case (snoc trk pre)
  show ?case
  proof (cases "ma < time_since_update trk")
    case True
    have step: "emit_and_remove ma mh fc (int (length (pre @ [trk])) - 1)
                  (int (length (pre @ [trk]))) ((pre @ [trk]) @ suf) ret
            = emit_and_remove ma mh fc (int (length pre) - 1) (int (length pre)) (pre @ suf)
                (if emitted mh fc trk then ret @ [ret_row trk] else ret)"
      using True
      by (subst emit_and_remove.simps) (simp add: list_pop_middle Let_def ret_row_def)
    show ?thesis
      unfolding step snoc.IH using True by simp
  next
    case False
    have step: "emit_and_remove ma mh fc (int (length (pre @ [trk])) - 1)
                  (int (length (pre @ [trk]))) ((pre @ [trk]) @ suf) ret
            = emit_and_remove ma mh fc (int (length pre) - 1) (int (length pre))
                (pre @ trk # suf) (if emitted mh fc trk then ret @ [ret_row trk] else ret)"
      using False
      by (subst emit_and_remove.simps) (simp add: Let_def ret_row_def)
    show ?thesis
      unfolding step snoc.IH using False by simp
  qed
qed

lemma emit_and_remove_all:
  "emit_and_remove ma mh fc (int (length trs) - 1) (int (length trs)) trs []
     = Inr (filter (\<lambda>t. \<not> ma < time_since_update t) trs,
            map ret_row (filter (emitted mh fc) (rev trs)))"
  using emit_and_remove_split [of ma mh fc trs "[]" "[]"] by simp

lemma Sort_update_Inr:
  "Sort_update L cnt self dets = Inr (cnt', self', ret) \<longleftrightarrow>
     (\<exists>live. live_tracks L cnt self dets = Inr (cnt', live)
        \<and> self' = self \<lparr> trackers := filter (\<lambda>t. \<not> max_age self < time_since_update t) live,
                          frame_count := frame_count self + 1 \<rparr>
        \<and> ret = map ret_row (filter (emitted (min_hits self) (frame_count self + 1)) (rev live)))"
  by (auto simp: Sort_update_def emit_and_remove_all split: sum.splits)

section \<open>Prediction and the removal of invalid tracks\<close>

lemma pop_all_append:
  "pop_all xs (as @ bs) = (case pop_all xs as of Inl e \<Rightarrow> Inl e | Inr ys \<Rightarrow> pop_all ys bs)"
  by (induction as arbitrary: xs) (simp_all split: sum.splits)

lemma predict_all_rows:
  "predict_all L t trs = (a, b, c) \<Longrightarrow>
     a = map (\<lambda>x. snd (predict L x)) trs \<and> b = map (\<lambda>x. trk_row (fst (predict L x))) trs"
  by (induction trs arbitrary: t a b c) (auto split: prod.splits)

lemma predict_all_pop:
  "predict_all L (length pre) trs = (a, b, c) \<Longrightarrow>
     pop_all (pre @ a) (rev c) = Inr (pre @ kept_tracks L trs)"
proof (induction trs arbitrary: pre a b c)
  case Nil
  then show ?case by (simp add: kept_tracks_def)
next
  case (Cons trk trs)
  obtain pos trk' where p: "predict L trk = (pos, trk')"
    by (cases "predict L trk")
  obtain a' b' c' where r: "predict_all L (Suc (length pre)) trs = (a', b', c')"
    by (cases "predict_all L (Suc (length pre)) trs")
  from Cons.prems p r have a: "a = trk' # a'"
    and c: "c = (if box_isnan pos then length pre # c' else c')"
    by simp_all
  from r have "predict_all L (length (pre @ [trk'])) trs = (a', b', c')"
    by simp
  from Cons.IH [OF this]
  have ih: "pop_all (pre @ trk' # a') (rev c') = Inr (pre @ trk' # kept_tracks L trs)"
    by simp
  show ?case
  proof (cases "box_isnan pos")
    case True
    then show ?thesis
      unfolding a c using ih p
      by (simp add: pop_all_append list_pop_middle kept_tracks_def)
  next
    case False
    then show ?thesis
      unfolding a c using ih p
      by (simp add: kept_tracks_def)
  qed
qed

lemma row_valid_not_nan: "row_valid (trk_row b) \<Longrightarrow> \<not> box_isnan b"
  by (cases b) auto

lemma kept_rows_le: "length (kept_rows L trs) \<le> length (kept_tracks L trs)"
proof -
  have "length (filter row_valid (map (\<lambda>t. trk_row (fst (predict L t))) trs))
          \<le> length (filter (\<lambda>t. \<not> box_isnan (fst (predict L t))) trs)"
    by (induction trs) (auto dest: row_valid_not_nan)
  moreover have "length (kept_tracks L trs)
                   = length (filter (\<lambda>t. \<not> box_isnan (fst (predict L t))) trs)"
    by (simp add: kept_tracks_def filter_map comp_def)
  ultimately show ?thesis
    by (simp add: kept_rows_def)
qed

lemma live_tracks_unfold:
  "live_tracks L cnt self dets =
     (case associate_detections_to_trackers L dets (kept_rows L (trackers self))
             (iou_threshold self) of
        Inl e \<Rightarrow> Inl e
      | Inr (matched, unmatched_dets, unmatched_trks) \<Rightarrow>
          (case update_matched L dets matched (kept_tracks L (trackers self)) of
             Inl e \<Rightarrow> Inl e
           | Inr trs'' \<Rightarrow> create_new L dets unmatched_dets cnt trs''))"
proof -
  obtain a b c where r: "predict_all L 0 (trackers self) = (a, b, c)"
    by (cases "predict_all L 0 (trackers self)")
  from predict_all_pop [of L "[]" "trackers self" a b c] r
  have p: "pop_all a (rev c) = Inr (kept_tracks L (trackers self))"
    by simp
  from predict_all_rows [OF r] have b: "filter row_valid b = kept_rows L (trackers self)"
    by (simp add: kept_rows_def)
  show ?thesis
    by (simp add: live_tracks_def r p b)
qed

section \<open>Updating the matched tracks and creating the new ones\<close>

lemma update_matched_untouched:
  "update_matched L dets ms trs = Inr trs' \<Longrightarrow>
     length trs' = length trs
     \<and> (\<forall>j<length trs. (\<forall>m\<in>set ms. py_index (length trs) (snd m) \<noteq> Inr j)
           \<longrightarrow> trs' ! j = trs ! j)"
proof (induction ms arbitrary: trs)
  case Nil
  then show ?case by simp
next
  case (Cons m ms)
  from Cons.prems obtain t where t: "py_index (length trs) (snd m) = Inr t"
    by (auto split: sum.splits)
  from Cons.prems t obtain det where det: "py_nth dets (fst m) = Inr det"
    by (auto split: sum.splits)
  let ?trs = "trs[t := update L (trs ! t) det]"
  from Cons.prems t det have "update_matched L dets ms ?trs = Inr trs'"
    by simp
  from Cons.IH [OF this] have l: "length trs' = length trs"
    and u: "\<And>j. j < length trs \<Longrightarrow> (\<forall>m\<in>set ms. py_index (length trs) (snd m) \<noteq> Inr j)
              \<Longrightarrow> trs' ! j = ?trs ! j"
    by simp_all
  show ?case
    using l u t by auto
qed

lemma update_matched_valid:
  assumes "list_all (\<lambda>p. 0 \<le> fst p \<and> fst p < int (length dets)
                          \<and> 0 \<le> snd p \<and> snd p < int (length trs)) ms"
    and "distinct (map snd ms)"
    and "list_all A trs"
    and "\<And>x det. A x \<Longrightarrow> B (update L x det)"
    and "\<And>x. A x \<Longrightarrow> B x"
  shows "\<exists>trs'. update_matched L dets ms trs = Inr trs' \<and> length trs' = length trs
           \<and> list_all B trs'"
proof -
  have "\<exists>trs'. update_matched L dets ms trs = Inr trs' \<and> length trs' = length trs
           \<and> list_all B trs'"
    if "list_all (\<lambda>p. 0 \<le> fst p \<and> fst p < int (length dets)
                          \<and> 0 \<le> snd p \<and> snd p < int (length trs)) ms"
      and "distinct (map snd ms)"
      and "\<forall>j<length trs. if int j \<in> snd ` set ms then A (trs ! j) else B (trs ! j)"
    for ms trs
    using that
  proof (induction ms arbitrary: trs)
    case Nil
    then show ?case by (simp add: list_all_length)
  next
    case (Cons m ms)
    from Cons.prems(1) have r: "0 \<le> fst m" "fst m < int (length dets)"
        "0 \<le> snd m" "snd m < int (length trs)"
      by simp_all
    let ?t = "nat (snd m)"
    let ?trs = "trs[?t := update L (trs ! ?t) (dets ! nat (fst m))]"
    have tl: "?t < length trs" using r by simp
    have e: "update_matched L dets (m # ms) trs = update_matched L dets ms ?trs"
      using r by (simp add: py_index_range py_nth_range)
    have 1: "list_all (\<lambda>p. 0 \<le> fst p \<and> fst p < int (length dets)
                          \<and> 0 \<le> snd p \<and> snd p < int (length ?trs)) ms"
      using Cons.prems(1) by simp
    have 2: "distinct (map snd ms)" and nm: "snd m \<notin> snd ` set ms"
      using Cons.prems(2) by simp_all
    have "A (trs ! ?t)"
      using Cons.prems(3) tl r by (auto split: if_splits)
    then have bt: "B (update L (trs ! ?t) (dets ! nat (fst m)))"
      by (rule assms(4))
    have 3: "\<forall>j<length ?trs. if int j \<in> snd ` set ms then A (?trs ! j) else B (?trs ! j)"
    proof (intro allI impI)
      fix j assume j: "j < length ?trs"
      show "if int j \<in> snd ` set ms then A (?trs ! j) else B (?trs ! j)"
      proof (cases "j = ?t")
        case True
        with nm r have "int j \<notin> snd ` set ms" by simp
        with True bt tl show ?thesis by simp
      next
        case False
        then have "int j \<noteq> snd m" using r by auto
        with False Cons.prems(3) j show ?thesis
          by (auto split: if_splits)
      qed
    qed
    from Cons.IH [OF 1 2 3] show ?case
      unfolding e by simp
  qed
  from this [OF assms(1,2)] assms(3,5) show ?thesis
    by (auto simp: list_all_length)
qed

lemma create_new_valid:
  "list_all (\<lambda>i. 0 \<le> i \<and> i < int (length dets)) is \<Longrightarrow>
     create_new L dets is cnt trs = Inr (cnt + int (length is), trs @ newborn L dets cnt is)"
proof (induction "is" arbitrary: cnt trs)
  case Nil
  then show ?case by simp
next
  case (Cons i rest)
  then have i: "py_nth dets i = Inr (dets ! nat i)"
    by (simp add: py_nth_range)
  obtain trk c where k: "KalmanBoxTracker_init L cnt (dets ! nat i) = (trk, c)"
    by (cases "KalmanBoxTracker_init L cnt (dets ! nat i)")
  then have c: "c = cnt + 1"
    by (auto simp: KalmanBoxTracker_init_def split: prod.splits)
  from Cons.prems have "list_all (\<lambda>i. 0 \<le> i \<and> i < int (length dets)) rest"
    by simp
  from Cons.IH [OF this, of "cnt + 1" "trs @ [trk]"] show ?case
    using i k c by simp
qed

lemma create_new_appends:
  "create_new L dets is cnt trs = Inr (cnt', trs') \<Longrightarrow> \<exists>new. trs' = trs @ new"
proof (induction "is" arbitrary: cnt trs)
  case Nil
  then show ?case by simp
next
  case (Cons i rest)
  from Cons.prems obtain det where d: "py_nth dets i = Inr det"
    by (auto split: sum.splits)
  obtain trk c where k: "KalmanBoxTracker_init L cnt det = (trk, c)"
    by (cases "KalmanBoxTracker_init L cnt det")
  from Cons.prems d k have "create_new L dets rest c (trs @ [trk]) = Inr (cnt', trs')"
    by simp
  from Cons.IH [OF this] show ?case
    by auto
qed

section \<open>The counters of a track\<close>

lemma init_counters:
  "counters_ok (fst (KalmanBoxTracker_init L cnt bbox))"
  by (simp add: KalmanBoxTracker_init_def counters_ok_def split: prod.splits)

lemma newborn_counters: "list_all counters_ok (newborn L dets cnt is)"
  by (induction "is" arbitrary: cnt) (simp_all add: init_counters)

lemma predict_counters: "counters_ok trk \<Longrightarrow> predicted_ok (snd (predict L trk))"
  by (simp add: predict_def counters_ok_def predicted_ok_def Let_def)

lemma update_counters: "predicted_ok trk \<Longrightarrow> counters_ok (update L trk det)"
  by (simp add: update_def counters_ok_def predicted_ok_def)

lemma predicted_counters: "predicted_ok trk \<Longrightarrow> counters_ok trk"
  by (simp add: counters_ok_def predicted_ok_def)

lemma kept_tracks_counters:
  "list_all counters_ok trs \<Longrightarrow> list_all predicted_ok (kept_tracks L trs)"
proof -
  assume a: "list_all counters_ok trs"
  have "predicted_ok (snd p)" if "p \<in> set (map (predict L) trs)" for p
    using that a by (auto simp: list_all_iff predict_counters)
  then show ?thesis
    by (auto simp: kept_tracks_def list_all_iff)
qed

section \<open>A frame with a valid backend\<close>

lemma unmatched_of_range: "list_all (\<lambda>i. 0 \<le> i \<and> i < int n) (unmatched_of n col)"
  by (auto simp: unmatched_of_def list_all_iff)

lemma live_tracks_valid:
  assumes ok: "solver_ok L" and inv: "list_all counters_ok (trackers self)"
  shows "\<exists>cnt' live. live_tracks L cnt self dets = Inr (cnt', live)
           \<and> list_all counters_ok live"
proof -
  let ?T = "kept_rows L (trackers self)"
  let ?K = "kept_tracks L (trackers self)"
  let ?M = "iou_batch dets ?T"
  let ?thr = "iou_threshold self"
  from associate_shape [OF ok, of dets ?T ?thr] obtain mi where
    df: "distinct (map fst mi)" and ds: "distinct (map snd mi)"
    and rg: "list_all (\<lambda>p. 0 \<le> fst p \<and> fst p < int (length dets)
                            \<and> 0 \<le> snd p \<and> snd p < int (length ?T)) mi"
    and a: "associate_detections_to_trackers L dets ?T ?thr =
               Inr (filter (\<lambda>m. \<not> low ?M ?thr m) mi,
                    unmatched_of (length dets) (map fst mi)
                      @ map fst (filter (low ?M ?thr) mi),
                    unmatched_of (length ?T) (map snd mi)
                      @ map snd (filter (low ?M ?thr) mi))"
    by blast
  let ?ms = "filter (\<lambda>m. \<not> low ?M ?thr m) mi"
  let ?ud = "unmatched_of (length dets) (map fst mi) @ map fst (filter (low ?M ?thr) mi)"
  have le: "length ?T \<le> length ?K"
    by (rule kept_rows_le)
  have 1: "list_all (\<lambda>p. 0 \<le> fst p \<and> fst p < int (length dets)
                          \<and> 0 \<le> snd p \<and> snd p < int (length ?K)) ?ms"
    using rg le by (auto simp: list_all_iff)
  have 2: "distinct (map snd ?ms)"
    using ds by (rule distinct_map_filter)
  from update_matched_valid [of dets ?K ?ms predicted_ok counters_ok L,
      OF 1 2 kept_tracks_counters [OF inv] update_counters predicted_counters]
  obtain trs' where u: "update_matched L dets ?ms ?K = Inr trs'"
    and c: "list_all counters_ok trs'"
    by blast
  have 3: "list_all (\<lambda>i. 0 \<le> i \<and> i < int (length dets)) ?ud"
    using rg unmatched_of_range [of "length dets" "map fst mi"]
    by (auto simp: list_all_iff)
  have "live_tracks L cnt self dets
          = Inr (cnt + int (length ?ud), trs' @ newborn L dets cnt ?ud)"
    by (simp add: live_tracks_unfold a u create_new_valid [OF 3])
  moreover have "list_all counters_ok (trs' @ newborn L dets cnt ?ud)"
    using c by (simp add: newborn_counters)
  ultimately show ?thesis by blast
qed

lemma Sort_update_valid:
  assumes ok: "solver_ok L" and inv: "list_all counters_ok (trackers self)"
  shows "\<exists>cnt' self' ret. Sort_update L cnt self dets = Inr (cnt', self', ret)
           \<and> list_all counters_ok (trackers self')"
proof -
  from live_tracks_valid [OF ok inv, of cnt dets] obtain cnt' live where
    l: "live_tracks L cnt self dets = Inr (cnt', live)" and c: "list_all counters_ok live"
    by blast
  let ?self = "self \<lparr> trackers := filter (\<lambda>t. \<not> max_age self < time_since_update t) live,
                      frame_count := frame_count self + 1 \<rparr>"
  have "Sort_update L cnt self dets
          = Inr (cnt', ?self,
                 map ret_row (filter (emitted (min_hits self) (frame_count self + 1)) (rev live)))"
    using l by (simp add: Sort_update_Inr)
  moreover have "list_all counters_ok (trackers ?self)"
    using c by (auto simp: list_all_iff)
  ultimately show ?thesis by blast
qed

lemma Sort_update_returns:
  assumes ok: "backend_returns L dets (kept_rows L (trackers self)) (iou_threshold self)"
  shows "\<exists>cnt' self' ret. Sort_update L cnt self dets = Inr (cnt', self', ret)"
proof -
  let ?T = "kept_rows L (trackers self)"
  let ?K = "kept_tracks L (trackers self)"
  let ?M = "iou_batch dets ?T"
  let ?thr = "iou_threshold self"
  from associate_shape_local [OF ok] obtain mi where
    ds: "distinct (map snd mi)"
    and rg: "list_all (\<lambda>p. 0 \<le> fst p \<and> fst p < int (length dets)
                            \<and> 0 \<le> snd p \<and> snd p < int (length ?T)) mi"
    and a: "associate_detections_to_trackers L dets ?T ?thr =
               Inr (filter (\<lambda>m. \<not> low ?M ?thr m) mi,
                    unmatched_of (length dets) (map fst mi)
                      @ map fst (filter (low ?M ?thr) mi),
                    unmatched_of (length ?T) (map snd mi)
                      @ map snd (filter (low ?M ?thr) mi))"
    by blast
  let ?ms = "filter (\<lambda>m. \<not> low ?M ?thr m) mi"
  let ?ud = "unmatched_of (length dets) (map fst mi) @ map fst (filter (low ?M ?thr) mi)"
  have le: "length ?T \<le> length ?K"
    by (rule kept_rows_le)
  have 1: "list_all (\<lambda>p. 0 \<le> fst p \<and> fst p < int (length dets)
                          \<and> 0 \<le> snd p \<and> snd p < int (length ?K)) ?ms"
    using rg le by (auto simp: list_all_iff)
  have 2: "distinct (map snd ?ms)"
    using ds by (rule distinct_map_filter)
  have 0: "list_all (\<lambda>t. True) ?K"
    by (simp add: list_all_iff)
  from update_matched_valid [of dets ?K ?ms "\<lambda>t. True" "\<lambda>t. True" L, OF 1 2 0]
  obtain trs' where u: "update_matched L dets ?ms ?K = Inr trs'"
    by blast
  have 3: "list_all (\<lambda>i. 0 \<le> i \<and> i < int (length dets)) ?ud"
    using rg unmatched_of_range [of "length dets" "map fst mi"]
    by (auto simp: list_all_iff)
  have "live_tracks L cnt self dets
          = Inr (cnt + int (length ?ud), trs' @ newborn L dets cnt ?ud)"
    by (simp add: live_tracks_unfold a u create_new_valid [OF 3])
  then show ?thesis
    by (simp add: Sort_update_Inr)
qed

lemma run_valid:
  assumes ok: "solver_ok L"
  shows "list_all counters_ok (trackers self) \<Longrightarrow>
         \<exists>cnt' self'. run L cnt self frames = Inr (cnt', self')
           \<and> list_all counters_ok (trackers self')"
proof (induction frames arbitrary: cnt self)
  case Nil
  then show ?case by simp
next
  case (Cons dets frames)
  from Sort_update_valid [OF ok Cons.prems, of cnt dets] obtain cnt1 self1 ret where
    u: "Sort_update L cnt self dets = Inr (cnt1, self1, ret)"
    and c: "list_all counters_ok (trackers self1)"
    by blast
  from Cons.IH [OF c, of cnt1] show ?case
    using u by simp
qed

text \<open>
  C7. With a backend that returns valid pairs, every sequence of frames given to a
  fresh tracker is processed without an exception, and afterwards every live track has
  \<open>0 \<le> hit_streak \<le> hits \<le> age\<close> and \<open>0 \<le> time_since_update\<close>.
\<close>

theorem counters_invariant:
  assumes "solver_ok L"
  shows "\<exists>cnt' self'. run L cnt (Sort_init ma mh thr) frames = Inr (cnt', self')
           \<and> list_all counters_ok (trackers self')"
  by (rule run_valid [OF assms]) (simp add: Sort_init_def)

section \<open>Running the tracker on two frames\<close>

lemmas run_defs =
  Sort_update_def live_tracks_def emit_and_remove_all Sort_init_def
  associate_detections_to_trackers_def matched_indices_def iou_batch_def
  fmaximum_def fminimum_def fsub_def Let_def float64_def binary_matrix_def fgreater_def
  row_sums_def col_sums_def np_where_def unmatched_of_def py_nth_def py_index_def list_pop_def
  linear_assignment_def simple_library_def checking_library_def invalid_entry_def
  diagonal_def inf_of_sign_def
  KalmanBoxTracker_init_def update_def predict_def get_state_def emitted_def ret_row_def

lemma first_frame:
  "Sort_update simple_library 0 (Sort_init 1 3 (Fin (3 / 10)))
     [(Fin 0, Fin 0, Fin 2, Fin 2, Fin 1)]
   = Inr (1,
          \<lparr> max_age = 1, min_hits = 3, iou_threshold = Fin (3 / 10),
            trackers = [\<lparr> kf = ((Fin 1, Fin 1, Fin 4, Fin 1, Fin 0, Fin 0, Fin 0), ()),
                          time_since_update = 0, id' = 0, history = [], hits = 0,
                          hit_streak = 0, age = 0 \<rparr>],
            frame_count = 1 \<rparr>,
          [(Fin 0, Fin 0, Fin 2, Fin 2, Fin 1)])"
  by (simp add: run_defs)

lemma second_frame:
  "Sort_update simple_library 1
     \<lparr> max_age = 1, min_hits = 3, iou_threshold = Fin (3 / 10),
       trackers = [\<lparr> kf = ((Fin 1, Fin 1, Fin 4, Fin 1, Fin 0, Fin 0, Fin 0), ()),
                     time_since_update = 0, id' = 0, history = [], hits = 0,
                     hit_streak = 0, age = 0 \<rparr>],
       frame_count = 1 \<rparr>
     [(Fin 0, Fin 0, Fin 2, Fin 2, Fin 1)]
   = Inr (1,
          \<lparr> max_age = 1, min_hits = 3, iou_threshold = Fin (3 / 10),
            trackers = [\<lparr> kf = ((Fin 1, Fin 1, Fin 4, Fin 1, Fin 0, Fin 0, Fin 0), ()),
                          time_since_update = 0, id' = 0, history = [], hits = 1,
                          hit_streak = 1, age = 1 \<rparr>],
            frame_count = 2 \<rparr>,
          [(Fin 0, Fin 0, Fin 2, Fin 2, Fin 1)])"
  by (simp add: run_defs)

theorem counters_invariant_witness:
  "solver_ok simple_library
   \<and> run simple_library 0 (Sort_init 1 3 (Fin (3 / 10)))
       [[(Fin 0, Fin 0, Fin 2, Fin 2, Fin 1)], [(Fin 0, Fin 0, Fin 2, Fin 2, Fin 1)]]
     = Inr (1,
          \<lparr> max_age = 1, min_hits = 3, iou_threshold = Fin (3 / 10),
            trackers = [\<lparr> kf = ((Fin 1, Fin 1, Fin 4, Fin 1, Fin 0, Fin 0, Fin 0), ()),
                          time_since_update = 0, id' = 0, history = [], hits = 1,
                          hit_streak = 1, age = 1 \<rparr>],
            frame_count = 2 \<rparr>)
   \<and> list_all counters_ok
        [\<lparr> kf = ((Fin 1, Fin 1, Fin 4, Fin 1, Fin 0, Fin 0, Fin 0), ()),
           time_since_update = 0, id' = 0, history = [], hits = 1,
           hit_streak = 1, age = 1 \<rparr>]"
proof -
  have r: "run simple_library 0 (Sort_init 1 3 (Fin (3 / 10)))
       [[(Fin 0, Fin 0, Fin 2, Fin 2, Fin 1)], [(Fin 0, Fin 0, Fin 2, Fin 2, Fin 1)]]
     = Inr (1,
          \<lparr> max_age = 1, min_hits = 3, iou_threshold = Fin (3 / 10),
            trackers = [\<lparr> kf = ((Fin 1, Fin 1, Fin 4, Fin 1, Fin 0, Fin 0, Fin 0), ()),
                          time_since_update = 0, id' = 0, history = [], hits = 1,
                          hit_streak = 1, age = 1 \<rparr>],
            frame_count = 2 \<rparr>)"
    by (simp add: first_frame second_frame)
  from counters_invariant [OF simple_library_ok, of 0 1 3 "Fin (3 / 10)"
      "[[(Fin 0, Fin 0, Fin 2, Fin 2, Fin 1)], [(Fin 0, Fin 0, Fin 2, Fin 2, Fin 1)]]"]
  show ?thesis
    unfolding r using simple_library_ok by simp
qed

section \<open>Emission and removal\<close>

lemma kept_tracks_tsu:
  assumes "list_all (\<lambda>t. 0 \<le> time_since_update t) trs"
  shows "list_all (\<lambda>t. 1 \<le> time_since_update t) (kept_tracks L trs)"
proof -
  have "1 \<le> time_since_update (snd p)" if "p \<in> set (map (predict L) trs)" for p
    using that assms by (auto simp: list_all_iff predict_def Let_def)
  then show ?thesis
    by (auto simp: kept_tracks_def list_all_iff)
qed

lemma live_tracks_unmatched:
  assumes l: "live_tracks L cnt self dets = Inr (cnt', live)"
    and a: "associate_detections_to_trackers L dets (kept_rows L (trackers self))
              (iou_threshold self) = Inr (matched, ud, ut)"
    and j: "j < length (kept_tracks L (trackers self))"
    and u: "\<forall>m\<in>set matched.
              py_index (length (kept_tracks L (trackers self))) (snd m) \<noteq> Inr j"
  shows "live ! j = kept_tracks L (trackers self) ! j"
proof -
  let ?K = "kept_tracks L (trackers self)"
  from l a obtain trs where m: "update_matched L dets matched ?K = Inr trs"
    and c: "create_new L dets ud cnt trs = Inr (cnt', live)"
    by (auto simp: live_tracks_unfold split: sum.splits)
  from update_matched_untouched [OF m] j u have len: "length trs = length ?K"
    and e: "trs ! j = ?K ! j"
    by simp_all
  from create_new_appends [OF c] obtain new where "live = trs @ new"
    by blast
  with len j e show ?thesis
    by (simp add: nth_append)
qed

text \<open>
  C4. The rows returned by \<open>Sort.update\<close> are the rows of exactly those live tracks,
  walked in reverse order, with \<open>time_since_update < 1\<close> and
  (\<open>hit_streak \<ge> min_hits\<close> or \<open>frame_count \<le> min_hits\<close>). Consequently a track that
  was predicted in this frame and that no match updates has \<open>time_since_update \<ge> 1\<close>
  and is not emitted.
\<close>

theorem emission_rule:
  assumes "Sort_update L cnt self dets = Inr (cnt', self', ret)"
  shows "\<exists>live. live_tracks L cnt self dets = Inr (cnt', live)
           \<and> ret = map ret_row
                     (filter (\<lambda>t. time_since_update t < 1
                                   \<and> (min_hits self \<le> hit_streak t
                                        \<or> frame_count self + 1 \<le> min_hits self))
                        (rev live))
           \<and> (\<forall>matched ud ut j.
                 associate_detections_to_trackers L dets (kept_rows L (trackers self))
                     (iou_threshold self) = Inr (matched, ud, ut)
                 \<and> j < length (kept_tracks L (trackers self))
                 \<and> (\<forall>m\<in>set matched.
                       py_index (length (kept_tracks L (trackers self))) (snd m) \<noteq> Inr j)
                 \<and> list_all (\<lambda>t. 0 \<le> time_since_update t) (trackers self)
                 \<longrightarrow> live ! j = kept_tracks L (trackers self) ! j
                     \<and> \<not> time_since_update (live ! j) < 1)"
proof -
  from assms obtain live where l: "live_tracks L cnt self dets = Inr (cnt', live)"
    and r: "ret = map ret_row
              (filter (emitted (min_hits self) (frame_count self + 1)) (rev live))"
    by (auto simp: Sort_update_Inr)
  have e: "emitted (min_hits self) (frame_count self + 1)
             = (\<lambda>t. time_since_update t < 1
                     \<and> (min_hits self \<le> hit_streak t \<or> frame_count self + 1 \<le> min_hits self))"
    by (simp add: emitted_def fun_eq_iff)
  have "live ! j = kept_tracks L (trackers self) ! j \<and> \<not> time_since_update (live ! j) < 1"
    if a: "associate_detections_to_trackers L dets (kept_rows L (trackers self))
             (iou_threshold self) = Inr (matched, ud, ut)"
      and j: "j < length (kept_tracks L (trackers self))"
      and u: "\<forall>m\<in>set matched.
                py_index (length (kept_tracks L (trackers self))) (snd m) \<noteq> Inr j"
      and n: "list_all (\<lambda>t. 0 \<le> time_since_update t) (trackers self)"
    for matched ud ut j
  proof -
    from live_tracks_unmatched [OF l a j u]
    have 1: "live ! j = kept_tracks L (trackers self) ! j" .
    from kept_tracks_tsu [OF n, of L] j
    have "1 \<le> time_since_update (kept_tracks L (trackers self) ! j)"
      by (simp add: list_all_length)
    with 1 show ?thesis by simp
  qed
  with l r show ?thesis
    unfolding e by blast
qed

text \<open>
  C5. The live tracks that \<open>Sort.update\<close> leaves for the next frame are exactly the live
  tracks whose \<open>time_since_update\<close> is not greater than \<open>max_age\<close>: the last loop removes a
  track if and only if its \<open>time_since_update\<close> is strictly greater than \<open>max_age\<close>.
\<close>

theorem removal_rule:
  assumes "Sort_update L cnt self dets = Inr (cnt', self', ret)"
  shows "\<exists>live. live_tracks L cnt self dets = Inr (cnt', live)
           \<and> trackers self' = filter (\<lambda>t. time_since_update t \<le> max_age self) live"
proof -
  from assms obtain live where l: "live_tracks L cnt self dets = Inr (cnt', live)"
    and s: "self' = self \<lparr> trackers := filter (\<lambda>t. \<not> max_age self < time_since_update t) live,
                            frame_count := frame_count self + 1 \<rparr>"
    by (auto simp: Sort_update_Inr)
  have "(\<lambda>t. \<not> max_age self < time_since_update t)
          = (\<lambda>t::'a KalmanBoxTracker. time_since_update t \<le> max_age self)"
    by (simp add: fun_eq_iff not_less)
  with l s show ?thesis
    by simp
qed

theorem emission_rule_witness:
  "Sort_update simple_library 1
     \<lparr> max_age = 1, min_hits = 3, iou_threshold = Fin (3 / 10),
       trackers = [\<lparr> kf = ((Fin 1, Fin 1, Fin 4, Fin 1, Fin 0, Fin 0, Fin 0), ()),
                     time_since_update = 0, id' = 0, history = [], hits = 0,
                     hit_streak = 0, age = 0 \<rparr>],
       frame_count = 1 \<rparr> []
   = Inr (1,
          \<lparr> max_age = 1, min_hits = 3, iou_threshold = Fin (3 / 10),
            trackers = [\<lparr> kf = ((Fin 1, Fin 1, Fin 4, Fin 1, Fin 0, Fin 0, Fin 0), ()),
                          time_since_update = 1, id' = 0,
                          history = [(Fin 0, Fin 0, Fin 2, Fin 2)], hits = 0,
                          hit_streak = 0, age = 1 \<rparr>],
            frame_count = 2 \<rparr>,
          [])
   \<and> live_tracks simple_library 1
       \<lparr> max_age = 1, min_hits = 3, iou_threshold = Fin (3 / 10),
         trackers = [\<lparr> kf = ((Fin 1, Fin 1, Fin 4, Fin 1, Fin 0, Fin 0, Fin 0), ()),
                       time_since_update = 0, id' = 0, history = [], hits = 0,
                       hit_streak = 0, age = 0 \<rparr>],
         frame_count = 1 \<rparr> []
     = Inr (1, [\<lparr> kf = ((Fin 1, Fin 1, Fin 4, Fin 1, Fin 0, Fin 0, Fin 0), ()),
                   time_since_update = 1, id' = 0,
                   history = [(Fin 0, Fin 0, Fin 2, Fin 2)], hits = 0,
                   hit_streak = 0, age = 1 \<rparr>])"
proof -
  let ?s = "\<lparr> max_age = 1, min_hits = 3, iou_threshold = Fin (3 / 10),
       trackers = [\<lparr> kf = ((Fin 1, Fin 1, Fin 4, Fin 1, Fin 0, Fin 0, Fin 0), ()),
                     time_since_update = 0, id' = 0, history = [], hits = 0,
                     hit_streak = 0, age = 0 \<rparr>],
       frame_count = 1 \<rparr>"
  let ?t = "\<lparr> kf = ((Fin 1, Fin 1, Fin 4, Fin 1, Fin 0, Fin 0, Fin 0), ()),
              time_since_update = 1, id' = 0,
              history = [(Fin 0, Fin 0, Fin 2, Fin 2)], hits = 0,
              hit_streak = 0, age = 1 \<rparr>"
  have e: "Sort_update simple_library 1 ?s []
             = Inr (1, ?s \<lparr> trackers := [?t], frame_count := 2 \<rparr>, [])"
    by (simp add: run_defs)
  from emission_rule [OF e] obtain live where
    "live_tracks simple_library 1 ?s [] = Inr (1, live)"
    and "[] = map ret_row
                (filter (\<lambda>t. time_since_update t < 1
                               \<and> (min_hits ?s \<le> hit_streak t \<or> frame_count ?s + 1 \<le> min_hits ?s))
                   (rev live))"
    by blast
  moreover have "live_tracks simple_library 1 ?s [] = Inr (1, [?t])"
    by (simp add: run_defs)
  ultimately show ?thesis
    using e by simp
qed

theorem removal_rule_witness:
  "Sort_update simple_library 1
     \<lparr> max_age = 0, min_hits = 3, iou_threshold = Fin (3 / 10),
       trackers = [\<lparr> kf = ((Fin 1, Fin 1, Fin 4, Fin 1, Fin 0, Fin 0, Fin 0), ()),
                     time_since_update = 0, id' = 0, history = [], hits = 0,
                     hit_streak = 0, age = 0 \<rparr>],
       frame_count = 1 \<rparr> []
   = Inr (1,
          \<lparr> max_age = 0, min_hits = 3, iou_threshold = Fin (3 / 10), trackers = [],
            frame_count = 2 \<rparr>,
          [])
   \<and> live_tracks simple_library 1
       \<lparr> max_age = 0, min_hits = 3, iou_threshold = Fin (3 / 10),
         trackers = [\<lparr> kf = ((Fin 1, Fin 1, Fin 4, Fin 1, Fin 0, Fin 0, Fin 0), ()),
                       time_since_update = 0, id' = 0, history = [], hits = 0,
                       hit_streak = 0, age = 0 \<rparr>],
         frame_count = 1 \<rparr> []
     = Inr (1, [\<lparr> kf = ((Fin 1, Fin 1, Fin 4, Fin 1, Fin 0, Fin 0, Fin 0), ()),
                   time_since_update = 1, id' = 0,
                   history = [(Fin 0, Fin 0, Fin 2, Fin 2)], hits = 0,
                   hit_streak = 0, age = 1 \<rparr>])"
proof -
  let ?s = "\<lparr> max_age = 0, min_hits = 3, iou_threshold = Fin (3 / 10),
       trackers = [\<lparr> kf = ((Fin 1, Fin 1, Fin 4, Fin 1, Fin 0, Fin 0, Fin 0), ()),
                     time_since_update = 0, id' = 0, history = [], hits = 0,
                     hit_streak = 0, age = 0 \<rparr>],
       frame_count = 1 \<rparr>"
  let ?t = "\<lparr> kf = ((Fin 1, Fin 1, Fin 4, Fin 1, Fin 0, Fin 0, Fin 0), ()),
              time_since_update = 1, id' = 0,
              history = [(Fin 0, Fin 0, Fin 2, Fin 2)], hits = 0,
              hit_streak = 0, age = 1 \<rparr>"
  have e: "Sort_update simple_library 1 ?s []
             = Inr (1, ?s \<lparr> trackers := [], frame_count := 2 \<rparr>, [])"
    by (simp add: run_defs)
  from removal_rule [OF e] obtain live where
    "live_tracks simple_library 1 ?s [] = Inr (1, live)"
    and "trackers (?s \<lparr> trackers := [], frame_count := 2 \<rparr>)
           = filter (\<lambda>t. time_since_update t \<le> max_age ?s) live"
    by blast
  moreover have "live_tracks simple_library 1 ?s [] = Inr (1, [?t])"
    by (simp add: run_defs)
  ultimately show ?thesis
    using e by simp
qed

section \<open>The first frame of a fresh tracker\<close>

lemma newborn_fresh:
  "list_all (\<lambda>t. time_since_update t = 0 \<and> hit_streak t = 0) (newborn L dets cnt is)"
  by (induction "is" arbitrary: cnt)
    (simp_all add: KalmanBoxTracker_init_def split: prod.splits)

lemma init_row:
  "ret_row (fst (KalmanBoxTracker_init L cnt det))
     = out_row (convert_x_to_bbox (convert_bbox_to_z (box_of_row det))) (cnt + 1)"
  by (cases "convert_bbox_to_z (box_of_row det)")
    (simp add: ret_row_def get_state_def KalmanBoxTracker_init_def)

lemma init_id: "id' (fst (KalmanBoxTracker_init L cnt det)) = cnt"
  by (simp add: KalmanBoxTracker_init_def split: prod.splits)

lemma fresh_live_tracks:
  "live_tracks L cnt (Sort_init ma mh thr) dets
     = Inr (cnt + int (length dets), newborn L dets cnt (map int [0..<length dets]))"
proof -
  have r: "list_all (\<lambda>i. 0 \<le> i \<and> i < int (length dets)) (map int [0..<length dets])"
    by (simp add: list_all_iff)
  show ?thesis
    using create_new_valid [OF r, of L cnt "[]"]
    by (simp add: live_tracks_unfold Sort_init_def kept_rows_def kept_tracks_def
        associate_detections_to_trackers_def)
qed

text \<open>
  C1, as the code has it. \<open>Sort.__init__\<close> leaves the counter of the class as it is. In
  the first frame of a fresh tracker the first track born takes the current value of the
  counter as its id, whatever that value is, and its row, the last one returned, carries
  that value plus one; the counter advances by the number of detections. The id is 0 and
  the emitted identifier 1 only when the counter is 0, that is when no track has been
  created in the process before.
\<close>

theorem first_track_takes_counter:
  "\<exists>trk rest self' ret.
     live_tracks L cnt (Sort_init ma mh thr) (det # dets)
       = Inr (cnt + 1 + int (length dets), trk # rest)
     \<and> id' trk = cnt
     \<and> Sort_update L cnt (Sort_init ma mh thr) (det # dets)
         = Inr (cnt + 1 + int (length dets), self', ret)
     \<and> ret \<noteq> []
     \<and> last ret = out_row (convert_x_to_bbox (convert_bbox_to_z (box_of_row det))) (cnt + 1)"
proof -
  let ?s = "Sort_init ma mh thr :: 'a Sort"
  define trk where "trk = fst (KalmanBoxTracker_init L cnt det)"
  define rest where
    "rest = newborn L (det # dets) (cnt + 1) (map int [Suc 0..<Suc (length dets)])"
  have n: "newborn L (det # dets) cnt (map int [0..<length (det # dets)]) = trk # rest"
    by (simp add: trk_def rest_def upt_conv_Cons del: upt_Suc)
  have l: "live_tracks L cnt ?s (det # dets)
             = Inr (cnt + 1 + int (length dets), trk # rest)"
    using fresh_live_tracks [of L cnt ma mh thr "det # dets"] unfolding n by simp
  have "list_all (\<lambda>t. time_since_update t = 0 \<and> hit_streak t = 0) (trk # rest)"
    using newborn_fresh [of L "det # dets" cnt "map int [0..<length (det # dets)]"]
    unfolding n .
  then have "list_all (emitted (min_hits ?s) (frame_count ?s + 1)) (trk # rest)"
    by (auto simp: list_all_iff emitted_def Sort_init_def)
  then have f: "filter (emitted (min_hits ?s) (frame_count ?s + 1)) (rev (trk # rest))
                  = rev (trk # rest)"
    by (auto simp: list_all_iff)
  define ret where "ret = map ret_row (rev (trk # rest))"
  define self' where
    "self' = ?s \<lparr> trackers := filter (\<lambda>t. \<not> max_age ?s < time_since_update t) (trk # rest),
                   frame_count := frame_count ?s + 1 \<rparr>"
  have u: "Sort_update L cnt ?s (det # dets) = Inr (cnt + 1 + int (length dets), self', ret)"
    unfolding Sort_update_Inr ret_def self'_def
    by (intro exI [where x = "trk # rest"] conjI l refl) (simp only: f)
  have 1: "ret \<noteq> []" and 2: "last ret = ret_row trk"
    by (simp_all add: ret_def)
  have 3: "id' trk = cnt"
    unfolding trk_def by (rule init_id)
  have 4: "ret_row trk
             = out_row (convert_x_to_bbox (convert_bbox_to_z (box_of_row det))) (cnt + 1)"
    unfolding trk_def by (rule init_row)
  from l 3 u 1 2 4 show ?thesis
    by (intro exI [where x = trk] exI [where x = rest] exI [where x = self']
        exI [where x = ret]) simp
qed

theorem first_track_takes_counter_witness:
  "Sort_update simple_library 7 (Sort_init 1 3 (Fin (3 / 10)))
     [(Fin 0, Fin 0, Fin 2, Fin 2, Fin 1)]
   = Inr (8,
          \<lparr> max_age = 1, min_hits = 3, iou_threshold = Fin (3 / 10),
            trackers = [\<lparr> kf = ((Fin 1, Fin 1, Fin 4, Fin 1, Fin 0, Fin 0, Fin 0), ()),
                          time_since_update = 0, id' = 7, history = [], hits = 0,
                          hit_streak = 0, age = 0 \<rparr>],
            frame_count = 1 \<rparr>,
          [(Fin 0, Fin 0, Fin 2, Fin 2, Fin 8)])
   \<and> last [(Fin 0, Fin 0, Fin 2, Fin 2, Fin 8)]
       = out_row (convert_x_to_bbox (convert_bbox_to_z
                    (box_of_row (Fin 0, Fin 0, Fin 2, Fin 2, Fin 1)))) (7 + 1)"
proof -
  have e: "Sort_update simple_library 7 (Sort_init 1 3 (Fin (3 / 10)))
     [(Fin 0, Fin 0, Fin 2, Fin 2, Fin 1)]
   = Inr (8,
          \<lparr> max_age = 1, min_hits = 3, iou_threshold = Fin (3 / 10),
            trackers = [\<lparr> kf = ((Fin 1, Fin 1, Fin 4, Fin 1, Fin 0, Fin 0, Fin 0), ()),
                          time_since_update = 0, id' = 7, history = [], hits = 0,
                          hit_streak = 0, age = 0 \<rparr>],
            frame_count = 1 \<rparr>,
          [(Fin 0, Fin 0, Fin 2, Fin 2, Fin 8)])"
    by (simp add: run_defs)
  from first_track_takes_counter [of simple_library 7 1 3 "Fin (3 / 10)"
      "(Fin 0, Fin 0, Fin 2, Fin 2, Fin 1)" "[]"]
  show ?thesis
    unfolding e by auto
qed

text \<open>
  C1 as stated fails. A first tracker, started when the counter is 0, creates one track
  and leaves the counter at 1. A second fresh tracker in the same process, given one
  detection, creates its first track with id 1 and returns it with identifier 2.
\<close>

theorem fresh_tracker_counterexample:
  "Sort_update simple_library 0 (Sort_init 1 3 (Fin (3 / 10)))
     [(Fin 0, Fin 0, Fin 2, Fin 2, Fin 1)]
   = Inr (1,
          \<lparr> max_age = 1, min_hits = 3, iou_threshold = Fin (3 / 10),
            trackers = [\<lparr> kf = ((Fin 1, Fin 1, Fin 4, Fin 1, Fin 0, Fin 0, Fin 0), ()),
                          time_since_update = 0, id' = 0, history = [], hits = 0,
                          hit_streak = 0, age = 0 \<rparr>],
            frame_count = 1 \<rparr>,
          [(Fin 0, Fin 0, Fin 2, Fin 2, Fin 1)])
   \<and> Sort_update simple_library 1 (Sort_init 1 3 (Fin (3 / 10)))
       [(Fin 0, Fin 0, Fin 2, Fin 2, Fin 1)]
     = Inr (2,
          \<lparr> max_age = 1, min_hits = 3, iou_threshold = Fin (3 / 10),
            trackers = [\<lparr> kf = ((Fin 1, Fin 1, Fin 4, Fin 1, Fin 0, Fin 0, Fin 0), ()),
                          time_since_update = 0, id' = 1, history = [], hits = 0,
                          hit_streak = 0, age = 0 \<rparr>],
            frame_count = 1 \<rparr>,
          [(Fin 0, Fin 0, Fin 2, Fin 2, Fin 2)])"
  by (simp add: run_defs)

section \<open>A predicted box with an infinite coordinate\<close>

text \<open>
  C2 fails on the code for an infinite coordinate. Two live tracks: the first at
  \<open>x = 2 ^ 1023\<close> with velocity \<open>2 ^ 1023\<close>, the second with the box \<open>(10, 0, 12, 2)\<close>; one
  detection \<open>(10, 0, 12, 2)\<close>. The predicted box of the first track is
  \<open>(inf, 0, inf, 2)\<close>: it has no NaN, so the track stays in the live set, and
  \<open>masked_invalid\<close> drops its row, so the only row of \<open>trks\<close> is the box of the second
  track. The match \<open>(0, 0)\<close> then updates the first live track with the detection: the
  row returned carries the identifier 1 of the first track, and the second track, whose
  box the detection is, is left without an update.
\<close>

theorem infinite_box_misaligns:
  "kept_tracks overflowing_library
     [\<lparr> kf = ((Fin (2 ^ 1023), Fin 1, Fin 4, Fin 1, Fin (2 ^ 1023), Fin 0, Fin 0), ()),
        time_since_update = 0, id' = 0, history = [], hits = 0, hit_streak = 0, age = 0 \<rparr>,
      \<lparr> kf = ((Fin 11, Fin 1, Fin 4, Fin 1, Fin 0, Fin 0, Fin 0), ()),
        time_since_update = 0, id' = 1, history = [], hits = 0, hit_streak = 0, age = 0 \<rparr>]
   = [\<lparr> kf = ((PInf, Fin 1, Fin 4, Fin 1, Fin (2 ^ 1023), Fin 0, Fin 0), ()),
        time_since_update = 1, id' = 0, history = [(PInf, Fin 0, PInf, Fin 2)],
        hits = 0, hit_streak = 0, age = 1 \<rparr>,
      \<lparr> kf = ((Fin 11, Fin 1, Fin 4, Fin 1, Fin 0, Fin 0, Fin 0), ()),
        time_since_update = 1, id' = 1, history = [(Fin 10, Fin 0, Fin 12, Fin 2)],
        hits = 0, hit_streak = 0, age = 1 \<rparr>]
   \<and> kept_rows overflowing_library
     [\<lparr> kf = ((Fin (2 ^ 1023), Fin 1, Fin 4, Fin 1, Fin (2 ^ 1023), Fin 0, Fin 0), ()),
        time_since_update = 0, id' = 0, history = [], hits = 0, hit_streak = 0, age = 0 \<rparr>,
      \<lparr> kf = ((Fin 11, Fin 1, Fin 4, Fin 1, Fin 0, Fin 0, Fin 0), ()),
        time_since_update = 0, id' = 1, history = [], hits = 0, hit_streak = 0, age = 0 \<rparr>]
   = [(Fin 10, Fin 0, Fin 12, Fin 2, Fin 0)]
   \<and> Sort_update overflowing_library 2
     \<lparr> max_age = 1, min_hits = 3, iou_threshold = Fin (3 / 10),
       trackers =
         [\<lparr> kf = ((Fin (2 ^ 1023), Fin 1, Fin 4, Fin 1, Fin (2 ^ 1023), Fin 0, Fin 0), ()),
            time_since_update = 0, id' = 0, history = [], hits = 0, hit_streak = 0, age = 0 \<rparr>,
          \<lparr> kf = ((Fin 11, Fin 1, Fin 4, Fin 1, Fin 0, Fin 0, Fin 0), ()),
            time_since_update = 0, id' = 1, history = [], hits = 0, hit_streak = 0, age = 0 \<rparr>],
       frame_count = 1 \<rparr>
     [(Fin 10, Fin 0, Fin 12, Fin 2, Fin 1)]
   = Inr (2,
       \<lparr> max_age = 1, min_hits = 3, iou_threshold = Fin (3 / 10),
         trackers =
           [\<lparr> kf = ((Fin 11, Fin 1, Fin 4, Fin 1, Fin (2 ^ 1023), Fin 0, Fin 0), ()),
              time_since_update = 0, id' = 0, history = [], hits = 1, hit_streak = 1, age = 1 \<rparr>,
            \<lparr> kf = ((Fin 11, Fin 1, Fin 4, Fin 1, Fin 0, Fin 0, Fin 0), ()),
              time_since_update = 1, id' = 1, history = [(Fin 10, Fin 0, Fin 12, Fin 2)],
              hits = 0, hit_streak = 0, age = 1 \<rparr>],
         frame_count = 2 \<rparr>,
       [(Fin 10, Fin 0, Fin 12, Fin 2, Fin 1)])"
  by (simp add: run_defs kept_tracks_def kept_rows_def overflowing_library_def)

text \<open>
  The same misalignment without a stand-in for the overflow, over two frames of a fresh
  tracker. The first frame has the detections \<open>(0, 0, 10 ^ 200, 1)\<close> and
  \<open>(0, 10, 10, 20)\<close>; the second has \<open>(0, 10, 10, 20)\<close> alone. In the second frame
  \<open>convert_x_to_bbox\<close> overflows on the first track (\<open>s * r = 10 ^ 400\<close>): its predicted box
  is \<open>(-inf, 1/2, inf, 1/2)\<close>, the track stays and its row is dropped, and the detection
  updates it in place of the second track and is returned with identifier 1.
\<close>

lemma sqrt_100: "sqrt 100 = 10"
  by (rule real_sqrt_unique) simp_all

lemma overflow_in_conversion_first_frame:
  "Sort_update simple_library 0 (Sort_init 1 3 (Fin (3 / 10)))
     [(Fin 0, Fin 0, Fin (10 ^ 200), Fin 1, Fin 1), (Fin 0, Fin 10, Fin 10, Fin 20, Fin 1)]
   = Inr (2,
       \<lparr> max_age = 1, min_hits = 3, iou_threshold = Fin (3 / 10),
         trackers =
           [\<lparr> kf = ((Fin (10 ^ 200 / 2), Fin (1 / 2), Fin (10 ^ 200), Fin (10 ^ 200),
                       Fin 0, Fin 0, Fin 0), ()),
              time_since_update = 0, id' = 0, history = [], hits = 0, hit_streak = 0,
              age = 0 \<rparr>,
            \<lparr> kf = ((Fin 5, Fin 15, Fin 100, Fin 1, Fin 0, Fin 0, Fin 0), ()),
              time_since_update = 0, id' = 1, history = [], hits = 0, hit_streak = 0,
              age = 0 \<rparr>],
         frame_count = 1 \<rparr>,
       [(Fin 0, Fin 10, Fin 10, Fin 20, Fin 2), (NInf, Fin (1 / 2), PInf, Fin (1 / 2), Fin 1)])"
  by (simp add: run_defs sqrt_100 numeral_2_eq_2)

lemma overflow_in_conversion_second_frame:
  "Sort_update simple_library 2
     \<lparr> max_age = 1, min_hits = 3, iou_threshold = Fin (3 / 10),
       trackers =
         [\<lparr> kf = ((Fin (10 ^ 200 / 2), Fin (1 / 2), Fin (10 ^ 200), Fin (10 ^ 200),
                     Fin 0, Fin 0, Fin 0), ()),
            time_since_update = 0, id' = 0, history = [], hits = 0, hit_streak = 0,
            age = 0 \<rparr>,
          \<lparr> kf = ((Fin 5, Fin 15, Fin 100, Fin 1, Fin 0, Fin 0, Fin 0), ()),
            time_since_update = 0, id' = 1, history = [], hits = 0, hit_streak = 0,
            age = 0 \<rparr>],
       frame_count = 1 \<rparr>
     [(Fin 0, Fin 10, Fin 10, Fin 20, Fin 1)]
   = Inr (2,
       \<lparr> max_age = 1, min_hits = 3, iou_threshold = Fin (3 / 10),
         trackers =
           [\<lparr> kf = ((Fin 5, Fin 15, Fin 100, Fin 1, Fin 0, Fin 0, Fin 0), ()),
              time_since_update = 0, id' = 0, history = [], hits = 1, hit_streak = 1,
              age = 1 \<rparr>,
            \<lparr> kf = ((Fin 5, Fin 15, Fin 100, Fin 1, Fin 0, Fin 0, Fin 0), ()),
              time_since_update = 1, id' = 1, history = [(Fin 0, Fin 10, Fin 10, Fin 20)],
              hits = 0, hit_streak = 0, age = 1 \<rparr>],
         frame_count = 2 \<rparr>,
       [(Fin 0, Fin 10, Fin 10, Fin 20, Fin 1)])"
  by (simp add: run_defs sqrt_100 numeral_2_eq_2)

section \<open>Detections without extent\<close>

lemma clamp_nonpos: "v \<le> 0 \<Longrightarrow> fmaximum (Fin 0) (float64 v) = Fin 0"
  by (auto simp: fmaximum_def float64_def)

lemma clamp_cases:
  "fmaximum (Fin 0) (float64 v) = PInf \<or> (\<exists>c. fmaximum (Fin 0) (float64 v) = Fin c)"
  by (auto simp: fmaximum_def float64_def)

lemma fmul_zero_left: "h = PInf \<or> (\<exists>c. h = Fin c) \<Longrightarrow> fmul (Fin 0) h = Fin 0 \<or> fmul (Fin 0) h = NaN"
  by (auto simp: float64_def inf_of_sign_def)

lemma fmul_zero_right: "w = PInf \<or> (\<exists>c. w = Fin c) \<Longrightarrow> fmul w (Fin 0) = Fin 0 \<or> fmul w (Fin 0) = NaN"
  by (auto simp: float64_def inf_of_sign_def)

lemma fdiv_zero: "fdiv (Fin 0) x = Fin 0 \<or> fdiv (Fin 0) x = NaN"
  by (cases x) (auto simp: float64_def inf_of_sign_def)

lemma fdiv_nan: "fdiv NaN x = NaN"
  by (cases x) simp_all

lemma iou_degenerate:
  assumes "a2 \<le> a0 \<or> a3 \<le> a1"
  shows "iou (Fin a0, Fin a1, Fin a2, Fin a3, sc) (Fin g0, Fin g1, Fin g2, Fin g3, sc') = Fin 0
         \<or> iou (Fin a0, Fin a1, Fin a2, Fin a3, sc) (Fin g0, Fin g1, Fin g2, Fin g3, sc') = NaN"
proof -
  define w where
    "w = fmaximum (Fin 0) (fsub (fminimum (Fin a2) (Fin g2)) (fmaximum (Fin a0) (Fin g0)))"
  define h where
    "h = fmaximum (Fin 0) (fsub (fminimum (Fin a3) (Fin g3)) (fmaximum (Fin a1) (Fin g1)))"
  define den where
    "den = fadd (fmul (fsub (Fin a2) (Fin a0)) (fsub (Fin a3) (Fin a1)))
                (fmul (fsub (Fin g2) (Fin g0)) (fsub (Fin g3) (Fin g1)))"
  have i: "iou (Fin a0, Fin a1, Fin a2, Fin a3, sc) (Fin g0, Fin g1, Fin g2, Fin g3, sc')
             = fdiv (fmul w h) (fsub den (fmul w h))"
    by (simp only: iou.simps Let_def w_def h_def den_def)
  have we: "w = fmaximum (Fin 0) (float64 (min a2 g2 - max a0 g0))"
    by (simp add: w_def fmaximum_def fminimum_def fsub_def max_def min_def)
  have he: "h = fmaximum (Fin 0) (float64 (min a3 g3 - max a1 g1))"
    by (simp add: h_def fmaximum_def fminimum_def fsub_def max_def min_def)
  have wc: "w = PInf \<or> (\<exists>c. w = Fin c)"
    unfolding we by (rule clamp_cases)
  have hc: "h = PInf \<or> (\<exists>c. h = Fin c)"
    unfolding he by (rule clamp_cases)
  have "fmul w h = Fin 0 \<or> fmul w h = NaN"
  proof (cases "a2 \<le> a0")
    case True
    then have "min a2 g2 - max a0 g0 \<le> 0" by auto
    then have "w = Fin 0"
      unfolding we by (rule clamp_nonpos)
    with fmul_zero_left [OF hc] show ?thesis by simp
  next
    case False
    with assms have "min a3 g3 - max a1 g1 \<le> 0" by auto
    then have "h = Fin 0"
      unfolding he by (rule clamp_nonpos)
    with fmul_zero_right [OF wc] show ?thesis by simp
  qed
  then show ?thesis
    unfolding i using fdiv_zero [of "fsub den (Fin 0)"] fdiv_nan [of "fsub den NaN"]
    by auto
qed

lemma row_valid_Fin:
  "row_valid r \<Longrightarrow> \<exists>g0 g1 g2 g3 g4. r = (Fin g0, Fin g1, Fin g2, Fin g3, Fin g4)"
proof -
  assume v: "row_valid r"
  have f: "\<exists>g. c = Fin g" if "\<not> (isnan c \<or> isinf c)" for c
    using that by (cases c) simp_all
  obtain c0 c1 c2 c3 c4 where r: "r = (c0, c1, c2, c3, c4)"
    by (cases r)
  with v f [of c0] f [of c1] f [of c2] f [of c3] f [of c4] show ?thesis
    by auto
qed

lemma iou_at_D:
  assumes "iou_at (iou_batch D T) m = Inr v"
  shows "\<exists>d t. py_index (length D) (fst m) = Inr d \<and> d < length D \<and> t < length T
               \<and> v = iou (D ! d) (T ! t)"
proof -
  from assms obtain d where d: "py_index (length D) (fst m) = Inr d"
    and r: "py_nth (iou_batch D T ! d) (snd m) = Inr v"
    by (auto simp: iou_at_def py_nth_def iou_batch_def split: sum.splits)
  from d have dl: "d < length D" by (rule py_index_less)
  from r obtain t where t: "py_index (length (iou_batch D T ! d)) (snd m) = Inr t"
    and v: "v = iou_batch D T ! d ! t"
    by (auto simp: py_nth_def split: sum.splits)
  from t dl have tl: "t < length T"
    by (auto dest: py_index_less simp: iou_batch_def)
  from v dl tl have "v = iou (D ! d) (T ! t)"
    by (simp add: iou_batch_def)
  with d dl tl show ?thesis by blast
qed

lemma finite_matrix_entry:
  "finite_matrix (iou_batch D T) \<Longrightarrow> d < length D \<Longrightarrow> t < length T
     \<Longrightarrow> iou (D ! d) (T ! t) \<noteq> NaN"
proof -
  assume f: "finite_matrix (iou_batch D T)" and d: "d < length D" and t: "t < length T"
  have "iou_batch D T ! d ! t = iou (D ! d) (T ! t)"
    using d t by (simp add: iou_batch_def)
  moreover have "\<not> isnan (iou_batch D T ! d ! t)"
    using f d t by (simp add: finite_matrix_def list_all_length iou_batch_def)
  ultimately show ?thesis
    by auto
qed

text \<open>
  C9, as the code has it. Take a detection of the frame with finite corners and zero or
  negative extent, and a positive threshold. Against every row of \<open>trks\<close> its IOU is 0 or
  NaN. Whatever the backend does, a match that the association returns for this
  detection has the IOU NaN: it is in no match with a track against which its IOU is 0.
  And when the IOU matrix of the frame has no NaN and no infinity, with a backend that
  returns valid pairs on such matrices, \<open>Sort.update\<close> returns (no exception) and the
  detection is in no match.
\<close>

theorem degenerate_detection:
  assumes d: "d < length dets"
    and det: "dets ! d = (Fin a0, Fin a1, Fin a2, Fin a3, sc)"
    and deg: "a2 \<le> a0 \<or> a3 \<le> a1"
    and thr: "iou_threshold self = Fin \<tau>" and pos: "0 < \<tau>"
  shows "(\<forall>t<length (kept_rows L (trackers self)).
            iou (dets ! d) (kept_rows L (trackers self) ! t) = Fin 0
            \<or> iou (dets ! d) (kept_rows L (trackers self) ! t) = NaN)
         \<and> (\<forall>matches ud ut m.
               associate_detections_to_trackers L dets (kept_rows L (trackers self)) (Fin \<tau>)
                   = Inr (matches, ud, ut)
               \<and> m \<in> set matches \<and> py_index (length dets) (fst m) = Inr d
               \<longrightarrow> iou_at (iou_batch dets (kept_rows L (trackers self))) m = Inr NaN)
         \<and> (solver_ok_finite L \<and> finite_matrix (iou_batch dets (kept_rows L (trackers self)))
             \<longrightarrow> (\<exists>cnt' self' ret. Sort_update L cnt self dets = Inr (cnt', self', ret))
                 \<and> (\<exists>matches ud ut.
                       associate_detections_to_trackers L dets (kept_rows L (trackers self))
                           (Fin \<tau>) = Inr (matches, ud, ut)
                       \<and> (\<forall>m\<in>set matches. py_index (length dets) (fst m) \<noteq> Inr d)))"
proof -
  let ?T = "kept_rows L (trackers self)"
  let ?M = "iou_batch dets ?T"
  have 1: "iou (dets ! d) (?T ! t) = Fin 0 \<or> iou (dets ! d) (?T ! t) = NaN"
    if t: "t < length ?T" for t
  proof -
    from t have "?T ! t \<in> set ?T" by simp
    then have "row_valid (?T ! t)"
      by (simp add: kept_rows_def)
    from row_valid_Fin [OF this] obtain g0 g1 g2 g3 g4 where
      "?T ! t = (Fin g0, Fin g1, Fin g2, Fin g3, Fin g4)"
      by blast
    then show ?thesis
      unfolding det using iou_degenerate [OF deg] by simp
  qed
  have 2: "iou_at ?M m = Inr NaN"
    if a: "associate_detections_to_trackers L dets ?T (Fin \<tau>) = Inr (matches, ud, ut)"
      and m: "m \<in> set matches" and i: "py_index (length dets) (fst m) = Inr d"
    for matches ud ut m
  proof -
    from match_not_below [OF a m] obtain v where v: "iou_at ?M m = Inr v"
      and n: "\<not> fless v (Fin \<tau>)"
      by blast
    from iou_at_D [OF v] i obtain t where t: "t < length ?T"
      and e: "v = iou (dets ! d) (?T ! t)"
      by auto
    from 1 [OF t] e have "v = Fin 0 \<or> v = NaN" by simp
    with n pos have "v = NaN" by auto
    with v show ?thesis by simp
  qed
  have 3: "(\<exists>cnt' self' ret. Sort_update L cnt self dets = Inr (cnt', self', ret))
           \<and> (\<exists>matches ud ut.
                 associate_detections_to_trackers L dets ?T (Fin \<tau>) = Inr (matches, ud, ut)
                 \<and> (\<forall>m\<in>set matches. py_index (length dets) (fst m) \<noteq> Inr d))"
    if ok: "solver_ok_finite L" and fin: "finite_matrix ?M"
  proof -
    from solver_ok_finite_returns [OF ok fin]
    have b: "backend_returns L dets ?T (iou_threshold self)" .
    from Sort_update_returns [OF b]
    have r: "\<exists>cnt' self' ret. Sort_update L cnt self dets = Inr (cnt', self', ret)" .
    from associate_shape_local [OF b] obtain matches ud ut where
      a: "associate_detections_to_trackers L dets ?T (Fin \<tau>) = Inr (matches, ud, ut)"
      unfolding thr by blast
    have "py_index (length dets) (fst m) \<noteq> Inr d" if m: "m \<in> set matches" for m
    proof
      assume i: "py_index (length dets) (fst m) = Inr d"
      from 2 [OF a m i] have v: "iou_at ?M m = Inr NaN" .
      from iou_at_D [OF v] obtain d' t where "d' < length dets" "t < length ?T"
        "NaN = iou (dets ! d') (?T ! t)"
        by blast
      with finite_matrix_entry [OF fin, of d' t] show False by simp
    qed
    with a r show ?thesis by blast
  qed
  from 1 2 3 show ?thesis
    by blast
qed

theorem degenerate_detection_witness:
  "solver_ok_finite checking_library
   \<and> kept_rows checking_library
       [\<lparr> kf = ((Fin 51, Fin 51, Fin 4, Fin 1, Fin 0, Fin 0, Fin 0), ()),
          time_since_update = 0, id' = 0, history = [], hits = 0, hit_streak = 0, age = 0 \<rparr>]
     = [(Fin 50, Fin 50, Fin 52, Fin 52, Fin 0)]
   \<and> iou_batch [(Fin 0, Fin 0, Fin 0, Fin 10, Fin 1)]
       [(Fin 50, Fin 50, Fin 52, Fin 52, Fin 0)] = [[Fin 0]]
   \<and> finite_matrix [[Fin 0]]
   \<and> associate_detections_to_trackers checking_library
       [(Fin 0, Fin 0, Fin 0, Fin 10, Fin 1)] [(Fin 50, Fin 50, Fin 52, Fin 52, Fin 0)]
       (Fin (3 / 10)) = Inr ([], [0], [0])
   \<and> Sort_update checking_library 1
       \<lparr> max_age = 1, min_hits = 3, iou_threshold = Fin (3 / 10),
         trackers =
           [\<lparr> kf = ((Fin 51, Fin 51, Fin 4, Fin 1, Fin 0, Fin 0, Fin 0), ()),
              time_since_update = 0, id' = 0, history = [], hits = 0, hit_streak = 0,
              age = 0 \<rparr>],
         frame_count = 1 \<rparr>
       [(Fin 0, Fin 0, Fin 0, Fin 10, Fin 1)]
     = Inr (2,
         \<lparr> max_age = 1, min_hits = 3, iou_threshold = Fin (3 / 10),
           trackers =
             [\<lparr> kf = ((Fin 51, Fin 51, Fin 4, Fin 1, Fin 0, Fin 0, Fin 0), ()),
                time_since_update = 1, id' = 0, history = [(Fin 50, Fin 50, Fin 52, Fin 52)],
                hits = 0, hit_streak = 0, age = 1 \<rparr>,
              \<lparr> kf = ((Fin 0, Fin 5, Fin 0, Fin 0, Fin 0, Fin 0, Fin 0), ()),
                time_since_update = 0, id' = 1, history = [], hits = 0, hit_streak = 0,
                age = 0 \<rparr>],
           frame_count = 2 \<rparr>,
         [(Fin 0, NaN, Fin 0, NaN, Fin 2)])"
proof -
  let ?t = "\<lparr> kf = ((Fin 51, Fin 51, Fin 4, Fin 1, Fin 0, Fin 0, Fin 0), ()),
          time_since_update = 0, id' = 0, history = [], hits = 0, hit_streak = 0, age = 0 \<rparr>"
  let ?s = "\<lparr> max_age = 1, min_hits = 3, iou_threshold = Fin (3 / 10), trackers = [?t],
              frame_count = 1 \<rparr>"
  let ?D = "[(Fin 0, Fin 0, Fin 0, Fin 10, Fin 1)]"
  let ?T = "[(Fin 50, Fin 50, Fin 52, Fin 52, Fin 0)]"
  have k: "kept_rows checking_library [?t] = ?T"
    by (simp add: kept_rows_def run_defs)
  have i: "iou_batch ?D ?T = [[Fin 0]]"
    by (simp add: run_defs)
  have f: "finite_matrix [[Fin 0]]"
    by (simp add: finite_matrix_def)
  have a: "associate_detections_to_trackers checking_library ?D ?T (Fin (3 / 10))
             = Inr ([], [0], [0])"
    by (simp add: run_defs)
  have u: "Sort_update checking_library 1 ?s ?D
     = Inr (2,
         ?s \<lparr> trackers :=
             [\<lparr> kf = ((Fin 51, Fin 51, Fin 4, Fin 1, Fin 0, Fin 0, Fin 0), ()),
                time_since_update = 1, id' = 0, history = [(Fin 50, Fin 50, Fin 52, Fin 52)],
                hits = 0, hit_streak = 0, age = 1 \<rparr>,
              \<lparr> kf = ((Fin 0, Fin 5, Fin 0, Fin 0, Fin 0, Fin 0, Fin 0), ()),
                time_since_update = 0, id' = 1, history = [], hits = 0, hit_streak = 0,
                age = 0 \<rparr>],
           frame_count := 2 \<rparr>,
         [(Fin 0, NaN, Fin 0, NaN, Fin 2)])"
    by (simp add: run_defs)
  have "0 < length ?D" "?D ! 0 = (Fin 0, Fin 0, Fin 0, Fin 10, Fin 1)"
      "(0::real) \<le> 0 \<or> (10::real) \<le> 0" "iou_threshold ?s = Fin (3 / 10)" "(0::real) < 3 / 10"
    by simp_all
  from degenerate_detection [OF this, of checking_library 1]
  show ?thesis
    using checking_library_ok k i f a u by simp
qed

text \<open>
  C9 as stated fails in three ways. The detection of negative width \<open>(2, 0, 0, 2)\<close> has
  the area -4, which cancels the area 4 of the track box \<open>(50, 50, 52, 52)\<close> in the
  denominator: the IOU is not 0 but NaN. In a frame with that detection and that track
  the cost matrix handed to the backend is \<open>[[NaN]]\<close>, on which
  \<open>linear_sum_assignment\<close> raises ValueError: \<open>Sort.update\<close> raises. And with
  \<open>iou_threshold = 0\<close> the detection of zero width \<open>(0, 0, 0, 10)\<close> is returned as a match
  of the track box: the IOU is 0, the backend proposes the only pair there is, and 0 is
  not below 0.
\<close>

theorem degenerate_detection_counterexample:
  "iou (Fin 2, Fin 0, Fin 0, Fin 2, Fin 1) (Fin 50, Fin 50, Fin 52, Fin 52, Fin 0) = NaN
   \<and> Sort_update checking_library 1
       \<lparr> max_age = 1, min_hits = 3, iou_threshold = Fin (3 / 10),
         trackers =
           [\<lparr> kf = ((Fin 51, Fin 51, Fin 4, Fin 1, Fin 0, Fin 0, Fin 0), ()),
              time_since_update = 0, id' = 0, history = [], hits = 0, hit_streak = 0,
              age = 0 \<rparr>],
         frame_count = 1 \<rparr>
       [(Fin 2, Fin 0, Fin 0, Fin 2, Fin 1)]
     = Inl ValueError
   \<and> associate_detections_to_trackers checking_library
       [(Fin 0, Fin 0, Fin 0, Fin 10, Fin 1)] [(Fin 50, Fin 50, Fin 52, Fin 52, Fin 0)]
       (Fin 0) = Inr ([(0, 0)], [], [])"
  by (simp add: run_defs)

end
